theory Spec2Isabelle
  imports Main
begin

section \<open>Strings\<close>

text \<open>
  A JavaScript string is a sequence of UTF-16 code units. It is modelled as the list of
  its code units, each a natural number, so that \<open>length\<close>, \<open>slice\<close>, \<open>trim\<close> and
  the regular expressions count and compare what the program counts and compares.
  \<open>lit\<close> turns an ASCII literal into its code units.
\<close>

type_synonym jstring = "nat list"

definition lit :: "string \<Rightarrow> jstring" where
  "lit s = map of_char s"

text \<open>\<open>String(n)\<close> for a non-negative integer: its decimal digits.\<close>

fun dec :: "nat \<Rightarrow> jstring" where
  "dec n = (if n < 10 then [48 + n] else dec (n div 10) @ [48 + n mod 10])"

declare dec.simps [simp del]

text \<open>
  \<open>s.slice(-k)\<close>: the last \<open>k\<close> code units, all of \<open>s\<close> when \<open>k\<close> exceeds the length,
  and all of \<open>s\<close> when \<open>k = 0\<close>, since \<open>-0\<close> is the index \<open>0\<close>.
\<close>

definition slice_from_end :: "nat \<Rightarrow> jstring \<Rightarrow> jstring" where
  "slice_from_end k s = (if k = 0 then s else drop (length s - k) s)"

section \<open>Text capping in the session adapter\<close>

text \<open>
  \<open>stripAnsi(input)\<close> is \<open>input.replace(re, '')\<close> for the global expression \<open>re\<close>
  that matches ESC (\<^verbatim>\<open>\x1b\<close>), an opening bracket, the longest run of digits and
  semicolons (\<^verbatim>\<open>[0-9;]*\<close>), and the letter m. Since m is not in the class, backtracking into the run never helps:
  there is a match at a position exactly when the longest run is followed by m.
\<close>

definition ansi_param :: "nat \<Rightarrow> bool" where
  "ansi_param c = ((48 \<le> c \<and> c \<le> 57) \<or> c = 59)"

definition ansi_tail :: "jstring \<Rightarrow> jstring option" where
  "ansi_tail cs =
     (case cs of
        [] \<Rightarrow> None
      | b # r \<Rightarrow>
          if b = 91 then
            (case dropWhile ansi_param r of
               [] \<Rightarrow> None
             | m # r' \<Rightarrow> if m = 109 then Some r' else None)
          else None)"

lemma ansi_tail_shorter: "ansi_tail cs = Some r \<Longrightarrow> length r < length cs"
proof -
  assume a: "ansi_tail cs = Some r"
  then obtain b t where cs: "cs = b # t"
    by (cases cs) (auto simp: ansi_tail_def)
  with a obtain m where dw: "dropWhile ansi_param t = m # r"
    by (auto simp: ansi_tail_def split: if_splits list.splits)
  have "length (dropWhile ansi_param t) \<le> length t"
    by (rule length_dropWhile_le)
  with dw cs show ?thesis by simp
qed

function stripAnsi :: "jstring \<Rightarrow> jstring" where
  "stripAnsi [] = []"
| "stripAnsi (c # cs) =
     (if c = 27 then
        (case ansi_tail cs of
           Some rest \<Rightarrow> stripAnsi rest
         | None \<Rightarrow> c # stripAnsi cs)
      else c # stripAnsi cs)"
  by pat_completeness auto
termination
  by (relation "measure length") (auto dest: ansi_tail_shorter)

text \<open>
  \<^verbatim>\<open>
  function truncateText(input: string, maxChars: number): string {
    if (input.length <= maxChars) return input;
    const head = input.slice(0, Math.floor(maxChars * 0.5));
    const tail = input.slice(-Math.floor(maxChars * 0.5));
    return `${head}\n...[truncated ${input.length - head.length - tail.length} chars]...\n${tail}`;
  }

  function safeToolText(input: string, maxChars = 20000): string {
    return truncateText(stripAnsi(input), maxChars);
  }
  \<close>
  The callers pass the caps 20000 and 8000, so \<open>maxChars\<close> is a natural number and
  \<open>Math.floor(maxChars * 0.5)\<close> is \<open>maxChars div 2\<close>. The number of dropped code units
  is never negative (lemma \<open>truncateText_dropped\<close> below), so it is a natural number too.
\<close>

definition truncation_marker :: "nat \<Rightarrow> jstring" where
  "truncation_marker n = 10 # lit ''...[truncated '' @ dec n @ lit '' chars]...'' @ [10]"

definition truncateText :: "jstring \<Rightarrow> nat \<Rightarrow> jstring" where
  "truncateText input maxChars =
     (if length input \<le> maxChars then input
      else
        let head = take (maxChars div 2) input;
            tail = slice_from_end (maxChars div 2) input
        in head @ truncation_marker (length input - length head - length tail) @ tail)"

definition safeToolText :: "jstring \<Rightarrow> nat \<Rightarrow> jstring" where
  "safeToolText input maxChars = truncateText (stripAnsi input) maxChars"

section \<open>Regular expressions\<close>

text \<open>
  The program uses regular expressions of a small fragment: literal characters, the dot,
  the class \<^verbatim>\<open>[^/]\<close>, each possibly under a star, with the flag \<^verbatim>\<open>i\<close> and the anchors
  \<^verbatim>\<open>^...$\<close>. \<open>test\<close> on an expression without the flag \<^verbatim>\<open>g\<close> asks whether a match
  exists, so the order in which a backtracking matcher tries the alternatives of a star
  does not matter.
\<close>

datatype rx_atom = Chr nat | AnyChar | NotChr nat

datatype rx_item = One rx_atom | Star rx_atom

record regex =
  rx_items :: "rx_item list"
  ignoreCase :: bool
  anchored :: bool

text \<open>
  The dot matches every code unit but the four line terminators. Under the flag \<^verbatim>\<open>i\<close>
  (without \<^verbatim>\<open>u\<close>) two code units match when their canonical forms agree; the canonical
  form of an ASCII letter is its upper case, and no code unit outside ASCII has an ASCII
  canonical form. The expressions of this program that carry the flag consist of ASCII
  characters, for which \<open>canonicalize\<close> decides the comparison as the engine does.
\<close>

definition line_terminator :: "nat \<Rightarrow> bool" where
  "line_terminator c = (c = 10 \<or> c = 13 \<or> c = 8232 \<or> c = 8233)"

definition canonicalize :: "nat \<Rightarrow> nat" where
  "canonicalize c = (if 97 \<le> c \<and> c \<le> 122 then c - 32 else c)"

fun atom_matches :: "bool \<Rightarrow> rx_atom \<Rightarrow> nat \<Rightarrow> bool" where
  "atom_matches ci (Chr c) x = (if ci then canonicalize x = canonicalize c else x = c)"
| "atom_matches ci AnyChar x = (\<not> line_terminator x)"
| "atom_matches ci (NotChr c) x = (if ci then canonicalize x \<noteq> canonicalize c else x \<noteq> c)"

text \<open>
  \<open>rx_match ci ae items s\<close>: the items match a prefix of \<open>s\<close>, the whole of \<open>s\<close> when
  \<open>ae\<close> (the anchor \<^verbatim>\<open>$\<close>) is set.
\<close>

fun rx_match :: "bool \<Rightarrow> bool \<Rightarrow> rx_item list \<Rightarrow> jstring \<Rightarrow> bool" where
  "rx_match ci ae [] s = (if ae then s = [] else True)"
| "rx_match ci ae (One a # r) [] = False"
| "rx_match ci ae (One a # r) (x # xs) = (atom_matches ci a x \<and> rx_match ci ae r xs)"
| "rx_match ci ae (Star a # r) [] = rx_match ci ae r []"
| "rx_match ci ae (Star a # r) (x # xs) =
     ((atom_matches ci a x \<and> rx_match ci ae (Star a # r) xs) \<or> rx_match ci ae r (x # xs))"

fun rx_search :: "bool \<Rightarrow> rx_item list \<Rightarrow> jstring \<Rightarrow> bool" where
  "rx_search ci items [] = rx_match ci False items []"
| "rx_search ci items (x # xs) = (rx_match ci False items (x # xs) \<or> rx_search ci items xs)"

definition rx_test :: "regex \<Rightarrow> jstring \<Rightarrow> bool" where
  "rx_test r s =
     (if anchored r then rx_match (ignoreCase r) True (rx_items r) s
      else rx_search (ignoreCase r) (rx_items r) s)"

definition chars :: "string \<Rightarrow> rx_item list" where
  "chars s = map (\<lambda>c. One (Chr (of_char c))) s"

text \<open>
  An expression is free of line feeds when none of its atoms matches the line feed.
\<close>

definition item_atom :: "rx_item \<Rightarrow> rx_atom" where
  "item_atom i = (case i of One a \<Rightarrow> a | Star a \<Rightarrow> a)"

definition newline_free :: "bool \<Rightarrow> rx_item list \<Rightarrow> bool" where
  "newline_free ci items = list_all (\<lambda>i. \<not> atom_matches ci (item_atom i) 10) items"

section \<open>Phase orchestrator\<close>

subsection \<open>Blocker detection\<close>

text \<open>
  \<^verbatim>\<open>
  const BLOCKER_PATTERNS = [
    /BLOCKED:/i, /<no-entry sign>/, /cannot proceed/i, /missing.*required/i,
    /waiting for.*input/i, /need.*clarification/i, /unable to continue/i, /blocked by/i,
  ];
  \<close>
  The second pattern is the single character U+1F6AB, the surrogate pair D83D DEAB.
\<close>

definition BLOCKER_PATTERNS :: "regex list" where
  "BLOCKER_PATTERNS =
    [ \<lparr>rx_items = chars ''BLOCKED:'', ignoreCase = True, anchored = False\<rparr>,
      \<lparr>rx_items = [One (Chr 55357), One (Chr 57003)], ignoreCase = False, anchored = False\<rparr>,
      \<lparr>rx_items = chars ''cannot proceed'', ignoreCase = True, anchored = False\<rparr>,
      \<lparr>rx_items = chars ''missing'' @ [Star AnyChar] @ chars ''required'',
         ignoreCase = True, anchored = False\<rparr>,
      \<lparr>rx_items = chars ''waiting for'' @ [Star AnyChar] @ chars ''input'',
         ignoreCase = True, anchored = False\<rparr>,
      \<lparr>rx_items = chars ''need'' @ [Star AnyChar] @ chars ''clarification'',
         ignoreCase = True, anchored = False\<rparr>,
      \<lparr>rx_items = chars ''unable to continue'', ignoreCase = True, anchored = False\<rparr>,
      \<lparr>rx_items = chars ''blocked by'', ignoreCase = True, anchored = False\<rparr> ]"

text \<open>
  \<^verbatim>\<open>
  private detectBlocker(output: string): boolean {
    for (const pattern of BLOCKER_PATTERNS) {
      if (pattern.test(output)) { return true; }
    }
    return false;
  }
  \<close>
\<close>

definition detectBlocker :: "jstring \<Rightarrow> bool" where
  "detectBlocker text = list_ex (\<lambda>pattern. rx_test pattern text) BLOCKER_PATTERNS"

text \<open>\<open>output.split('\n')\<close>: the pieces between line feeds; one empty piece for the empty string.\<close>

fun split_lines :: "jstring \<Rightarrow> jstring list" where
  "split_lines [] = [] # []"
| "split_lines (c # cs) =
     (if c = 10 then [] # split_lines cs
      else (case split_lines cs of
              [] \<Rightarrow> [c] # []
            | l # ls \<Rightarrow> (c # l) # ls))"

text \<open>\<open>line.trim()\<close> removes white space and line terminators at both ends.\<close>

definition white_space :: "nat \<Rightarrow> bool" where
  "white_space c =
     (c = 9 \<or> c = 10 \<or> c = 11 \<or> c = 12 \<or> c = 13 \<or> c = 32 \<or> c = 160 \<or> c = 5760
      \<or> (8192 \<le> c \<and> c \<le> 8202) \<or> c = 8232 \<or> c = 8233 \<or> c = 8239 \<or> c = 8287
      \<or> c = 12288 \<or> c = 65279)"

definition trim :: "jstring \<Rightarrow> jstring" where
  "trim s = rev (dropWhile white_space (rev (dropWhile white_space s)))"

text \<open>
  \<^verbatim>\<open>
  private extractBlockerReason(output: string): string {
    const lines = output.split('\n');
    for (const line of lines) {
      for (const pattern of BLOCKER_PATTERNS) {
        if (pattern.test(line)) {
          return line.trim().slice(0, 200); // Limit to 200 chars
        }
      }
    }
    return 'Task reported a blocker';
  }
  \<close>
\<close>

definition extractBlockerReason :: "jstring \<Rightarrow> jstring" where
  "extractBlockerReason text =
     (case find detectBlocker (split_lines text) of
        Some line \<Rightarrow> take 200 (trim line)
      | None \<Rightarrow> lit ''Task reported a blocker'')"

subsection \<open>Tasks, output events and results\<close>

datatype task_status = T_pending | T_in_progress | T_completed | T_blocked

record task =
  task_id :: nat
  title :: jstring
  description :: "jstring option"
  task_status :: task_status

datatype output_type =
  Stdout | Stderr | Status | Complete | Error | Tool_start | Tool_end | Tool_error

text \<open>
  An \<open>AgentOutput\<close>. Its timestamp and the optional tool fields are not read by any
  function modelled here and are left out.
\<close>

record agent_output =
  otype :: output_type
  data :: jstring

datatype result_status = R_completed | R_failed | R_blocked | R_skipped

record task_result =
  taskId :: nat
  taskTitle :: jstring
  status :: result_status
  blockerReason :: "jstring option"
  duration :: nat
  result_output :: jstring

record phase_result =
  phaseId :: nat
  tasksCompleted :: nat
  tasksFailed :: nat
  tasksBlocked :: nat
  tasksSkipped :: nat
  results :: "task_result list"
  stoppedByUser :: bool
  phaseBlockerReason :: "jstring option"
  totalDuration :: nat

text \<open>
  What a subscriber of an observable sees: the values in the order of their emission, then
  at most one closing notification. A stream that never closes leaves the promise of
  \<open>executeTask\<close> pending for ever, which is also what \<open>forceStop\<close> causes by
  unsubscribing.
\<close>

text \<open>
  A thrown value, which is also what an observable hands to the \<open>error\<close> callback: an
  \<open>Error\<close> with its message, or a value that is not an \<open>Error\<close> and has no property
  \<open>message\<close> (a string, a number, a plain object). The program reads such a value in
  two ways: \<^verbatim>\<open>error instanceof Error ? error.message : 'Unknown error'\<close>, and
  \<^verbatim>\<open>error.message\<close> inside a template literal, where an absent property reads
  \<open>undefined\<close>.
\<close>

datatype thrown = Error_object jstring | Non_error

definition error_message :: "thrown \<Rightarrow> jstring" where
  "error_message e = (case e of Error_object m \<Rightarrow> m | Non_error \<Rightarrow> lit ''Unknown error'')"

definition message_property :: "thrown \<Rightarrow> jstring" where
  "message_property e = (case e of Error_object m \<Rightarrow> m | Non_error \<Rightarrow> lit ''undefined'')"

datatype stream_end = Completes | Errors thrown | Never_ends

record stream =
  events :: "agent_output list"
  ending :: stream_end

text \<open>An asynchronous call returns a value, throws, or never settles.\<close>

datatype 'a outcome = Returns 'a | Throws jstring | Hangs

text \<open>
  The world of one task attempt: what \<open>agentManager.executeTask\<close> does when the
  orchestrator calls it (it throws for an unknown agent, or returns a stream), the time
  the attempt takes, and whether \<open>stopAfterCurrentTask\<close> is called while the task is in
  flight.
\<close>

datatype agent_run = Agent_throws jstring | Streams stream

record task_run =
  run :: agent_run
  run_duration :: nat
  stop_requested :: bool

subsection \<open>Executing one task\<close>

text \<open>
  The three variables the subscription closes over, and the \<open>next\<close> callback:
  \<^verbatim>\<open>
  next: (output: AgentOutput) => {
    taskOutput += output.data + '\n';
    events.onTaskOutput?.(task, output);
    if (!blockerDetected && this.detectBlocker(output.data)) {
      blockerDetected = true;
      blockerReason = this.extractBlockerReason(output.data);
    }
  },
  \<close>
  The optional consumer callbacks and the fire-and-forget status pushes to the task store
  do not influence the result and are not modelled.
\<close>

record subscription =
  taskOutput :: jstring
  blockerDetected :: bool
  sub_blockerReason :: "jstring option"

definition subscription_init :: subscription where
  "subscription_init = \<lparr>taskOutput = [], blockerDetected = False, sub_blockerReason = None\<rparr>"

definition on_next :: "subscription \<Rightarrow> agent_output \<Rightarrow> subscription" where
  "on_next s out =
     (let s1 = s\<lparr>taskOutput := taskOutput s @ data out @ [10]\<rparr>
      in if \<not> blockerDetected s \<and> detectBlocker (data out)
         then s1\<lparr>blockerDetected := True,
                 sub_blockerReason := Some (extractBlockerReason (data out))\<rparr>
         else s1)"

text \<open>
  \<^verbatim>\<open>
  error: (error) => {
    resolve({ taskId: task.id, taskTitle: task.title, status: 'failed',
              duration: Date.now() - taskStartTime,
              output: taskOutput + `\n\nError: ${error.message}` });
  },
  complete: () => {
    const duration = Date.now() - taskStartTime;
    if (blockerDetected) {
      resolve({ taskId: task.id, taskTitle: task.title, status: 'blocked',
                blockerReason, duration, output: taskOutput });
    } else {
      resolve({ taskId: task.id, taskTitle: task.title, status: 'completed',
                duration, output: taskOutput });
    }
  },
  \<close>
\<close>

definition on_error :: "task \<Rightarrow> nat \<Rightarrow> subscription \<Rightarrow> thrown \<Rightarrow> task_result" where
  "on_error t d s error =
     \<lparr>taskId = task_id t, taskTitle = title t, status = R_failed, blockerReason = None,
      duration = d,
      result_output = taskOutput s @ [10, 10] @ lit ''Error: '' @ message_property error\<rparr>"

definition on_complete :: "task \<Rightarrow> nat \<Rightarrow> subscription \<Rightarrow> task_result" where
  "on_complete t d s =
     (if blockerDetected s
      then \<lparr>taskId = task_id t, taskTitle = title t, status = R_blocked,
            blockerReason = sub_blockerReason s, duration = d, result_output = taskOutput s\<rparr>
      else \<lparr>taskId = task_id t, taskTitle = title t, status = R_completed,
            blockerReason = None, duration = d, result_output = taskOutput s\<rparr>)"

definition executeTask :: "task \<Rightarrow> task_run \<Rightarrow> task_result outcome" where
  "executeTask t r =
     (case run r of
        Agent_throws message \<Rightarrow> Throws message
      | Streams str \<Rightarrow>
          (let s = foldl on_next subscription_init (events str)
           in case ending str of
                Errors error \<Rightarrow> Returns (on_error t (run_duration r) s error)
              | Completes \<Rightarrow> Returns (on_complete t (run_duration r) s)
              | Never_ends \<Rightarrow> Hangs))"

subsection \<open>Executing a phase\<close>

record orchestrator =
  isRunning :: bool
  shouldStop :: bool

definition stopAfterCurrentTask :: "orchestrator \<Rightarrow> orchestrator" where
  "stopAfterCurrentTask orch = orch\<lparr>shouldStop := True\<rparr>"

definition skipped :: "task \<Rightarrow> task_result" where
  "skipped t =
     \<lparr>taskId = task_id t, taskTitle = title t, status = R_skipped, blockerReason = None,
      duration = 0, result_output = lit ''Skipped by user''\<rparr>"

text \<open>
  The loop over the pending tasks. \<open>runs i\<close> is the world of the attempt on the task at
  position \<open>i\<close>, used only if that task is executed.
  \<^verbatim>\<open>
  for (const task of pendingTasks) {
    if (this.shouldStop) {
      results.push({ taskId: task.id, taskTitle: task.title, status: 'skipped',
                     duration: 0, output: 'Skipped by user' });
      continue;
    }
    const taskResult = await this.executeTask(task, options, events);
    results.push(taskResult);
    if (taskResult.status === 'blocked') { break; }
  }
  \<close>
\<close>

fun task_loop ::
  "(nat \<Rightarrow> task_run) \<Rightarrow> nat \<Rightarrow> orchestrator \<Rightarrow> task_result list \<Rightarrow> task list
   \<Rightarrow> (orchestrator \<times> task_result list) outcome" where
  "task_loop runs i orch res [] = Returns (orch, res)"
| "task_loop runs i orch res (t # ts) =
     (if shouldStop orch then task_loop runs (Suc i) orch (res @ [skipped t]) ts
      else
        (case executeTask t (runs i) of
           Throws message \<Rightarrow> Throws message
         | Hangs \<Rightarrow> Hangs
         | Returns taskResult \<Rightarrow>
             (let orch' = (if stop_requested (runs i) then stopAfterCurrentTask orch else orch);
                  res' = res @ [taskResult]
              in if status taskResult = R_blocked then Returns (orch', res')
                 else task_loop runs (Suc i) orch' res' ts)))"

text \<open>
  The world of one call of \<open>executePhase\<close>: whether the context sync throws, what the
  task store returns, whether \<open>stopAfterCurrentTask\<close> is called while the call waits
  for these two, the worlds of the task attempts, and the time the call takes.
\<close>

record phase_world =
  syncContext :: "jstring option"
  fetchTasksByPhase :: "jstring + task list"
  stop_before_loop :: bool
  runs :: "nat \<Rightarrow> task_run"
  elapsed :: nat

definition count_status :: "result_status \<Rightarrow> task_result list \<Rightarrow> nat" where
  "count_status st res = length (filter (\<lambda>r. status r = st) res)"

definition phase_stats :: "nat \<Rightarrow> orchestrator \<Rightarrow> task_result list \<Rightarrow> nat \<Rightarrow> phase_result" where
  "phase_stats pid orch res ms =
     \<lparr>phaseId = pid,
      tasksCompleted = count_status R_completed res,
      tasksFailed = count_status R_failed res,
      tasksBlocked = count_status R_blocked res,
      tasksSkipped = count_status R_skipped res,
      results = res,
      stoppedByUser = shouldStop orch,
      phaseBlockerReason =
        (case find (\<lambda>r. status r = R_blocked) res of
           None \<Rightarrow> None
         | Some r \<Rightarrow> blockerReason r),
      totalDuration = ms\<rparr>"

definition finally_reset :: "orchestrator \<Rightarrow> orchestrator" where
  "finally_reset orch = orch\<lparr>isRunning := False, shouldStop := False\<rparr>"

text \<open>The filter on the fetched tasks: pending and in-progress tasks only.\<close>

definition is_pending :: "task \<Rightarrow> bool" where
  "is_pending t = (task_status t = T_pending \<or> task_status t = T_in_progress)"

text \<open>
  \<open>executePhase\<close> returns the orchestrator after the call together with the outcome. The
  guard throws before the \<open>try\<close>, so the state is then left as it was; every other
  return or throw passes through the \<open>finally\<close> block; a call that hangs never reaches it.
\<close>

definition executePhase ::
  "orchestrator \<Rightarrow> nat \<Rightarrow> phase_world \<Rightarrow> orchestrator \<times> phase_result outcome" where
  "executePhase orch pid w =
     (if isRunning orch then (orch, Throws (lit ''Phase execution already in progress''))
      else
        let orch1 = orch\<lparr>isRunning := True, shouldStop := False\<rparr>
        in case syncContext w of
             Some message \<Rightarrow> (finally_reset orch1, Throws message)
           | None \<Rightarrow>
               (case fetchTasksByPhase w of
                  Inl message \<Rightarrow> (finally_reset orch1, Throws message)
                | Inr allTasks \<Rightarrow>
                    (let pendingTasks = filter is_pending allTasks
                     in if length pendingTasks = 0
                        then (finally_reset orch1,
                              Returns \<lparr>phaseId = pid, tasksCompleted = 0, tasksFailed = 0,
                                       tasksBlocked = 0, tasksSkipped = 0, results = [],
                                       stoppedByUser = False, phaseBlockerReason = None,
                                       totalDuration = elapsed w\<rparr>)
                        else
                          (case task_loop (runs w) 0
                                  (if stop_before_loop w then stopAfterCurrentTask orch1
                                   else orch1)
                                  [] pendingTasks of
                             Throws message \<Rightarrow> (finally_reset orch1, Throws message)
                           | Hangs \<Rightarrow> (orch1, Hangs)
                           | Returns (orch2, res) \<Rightarrow>
                               (finally_reset orch2,
                                Returns (phase_stats pid orch2 res (elapsed w)))))))"

subsection \<open>Notions used to state the properties of the orchestrator\<close>

text \<open>The text a task accumulates from its chunks: each chunk followed by a line feed.\<close>

definition chunks_text :: "agent_output list \<Rightarrow> jstring" where
  "chunks_text evs = concat (map (\<lambda>e. data e @ [10]) evs)"

text \<open>
  A task attempt that comes to an end without a blocker: its stream errors, or completes
  with no chunk that matches a blocker pattern.
\<close>

definition finishes_unblocked :: "task_run \<Rightarrow> bool" where
  "finishes_unblocked r =
     (case run r of
        Agent_throws message \<Rightarrow> False
      | Streams str \<Rightarrow>
          (case ending str of
             Completes \<Rightarrow> find (\<lambda>e. detectBlocker (data e)) (events str) = None
           | Errors error \<Rightarrow> True
           | Never_ends \<Rightarrow> False))"

text \<open>The value a call returned, if it returned.\<close>

definition returned :: "'a outcome \<Rightarrow> 'a option" where
  "returned x = (case x of Returns v \<Rightarrow> Some v | Throws message \<Rightarrow> None | Hangs \<Rightarrow> None)"

definition result_statuses :: "orchestrator \<times> phase_result outcome \<Rightarrow> result_status list option" where
  "result_statuses x = map_option (\<lambda>pr. map status (results pr)) (returned (snd x))"

section \<open>Execution registry (AgentManager)\<close>

subsection \<open>The subject of one execution\<close>

text \<open>
  \<open>executeTask\<close> creates one RxJS \<open>Subject\<close> per execution and returns it as an
  observable. A subject passes \<open>next\<close> on until it is closed by \<open>complete\<close> or
  \<open>error\<close>; after that \<open>next\<close>, \<open>complete\<close> and \<open>error\<close> do nothing. It does not
  replay values to a subscriber that arrives later, but it does hand such a subscriber
  the closing notification.
\<close>

datatype notification = N_complete | N_error thrown

record subject =
  emitted :: "agent_output list"
  closed :: "notification option"

definition subject_new :: subject where
  "subject_new = \<lparr>emitted = [], closed = None\<rparr>"

definition subject_next :: "agent_output \<Rightarrow> subject \<Rightarrow> subject" where
  "subject_next out sub =
     (case closed sub of None \<Rightarrow> sub\<lparr>emitted := emitted sub @ [out]\<rparr> | Some n \<Rightarrow> sub)"

definition subject_complete :: "subject \<Rightarrow> subject" where
  "subject_complete sub =
     (case closed sub of None \<Rightarrow> sub\<lparr>closed := Some N_complete\<rparr> | Some n \<Rightarrow> sub)"

definition subject_error :: "thrown \<Rightarrow> subject \<Rightarrow> subject" where
  "subject_error error sub =
     (case closed sub of None \<Rightarrow> sub\<lparr>closed := Some (N_error error)\<rparr> | Some n \<Rightarrow> sub)"

text \<open>
  What a subscriber receives that subscribes when \<open>executeTask\<close> returns, as the
  orchestrator does: the values emitted after that moment and the closing notification.
\<close>

definition delivered :: "subject \<Rightarrow> subject \<Rightarrow> stream" where
  "delivered at_return final =
     \<lparr>events = drop (length (emitted at_return)) (emitted final),
      ending = (case closed final of
                  None \<Rightarrow> Never_ends
                | Some N_complete \<Rightarrow> Completes
                | Some (N_error error) \<Rightarrow> Errors error)\<rparr>"

subsection \<open>Adapters, prompts and tracked executions\<close>

record adapter =
  adapter_name :: jstring
  has_executeSdk :: bool

record task_prompt =
  prompt_id :: jstring
  prompt_title :: jstring
  model :: "jstring option"

datatype exec_status = E_running | E_completed | E_failed | E_stopped

text \<open>
  A \<open>RunningProcess\<close> holds either the child process or the cancel callback of a session
  execution; \<open>has_process\<close> tells which.
\<close>

record running_process =
  has_process :: bool
  rp_agentId :: jstring
  rp_taskId :: jstring
  exec_status :: exec_status

record manager =
  adapters :: "jstring \<rightharpoonup> adapter"
  runningProcesses :: "jstring \<rightharpoonup> running_process"

definition set_status :: "jstring \<Rightarrow> exec_status \<Rightarrow> manager \<Rightarrow> manager" where
  "set_status pid st mgr =
     (case runningProcesses mgr pid of
        None \<Rightarrow> mgr
      | Some info \<Rightarrow>
          mgr\<lparr>runningProcesses := (runningProcesses mgr)(pid \<mapsto> info\<lparr>exec_status := st\<rparr>)\<rparr>)"

definition getExecutionStatus :: "manager \<Rightarrow> jstring \<Rightarrow> exec_status option" where
  "getExecutionStatus mgr pid = map_option exec_status (runningProcesses mgr pid)"

text \<open>
  \<^verbatim>\<open>
  async stopExecution(processId: string): Promise<void> {
    const processInfo = this.runningProcesses.get(processId);
    if (!processInfo) { throw new Error(`Process not found: ${processId}`); }
    if (processInfo.process) { processInfo.process.kill(); }
    else if (processInfo.cancel) { await processInfo.cancel(); }
    processInfo.status = 'stopped';
  }
  \<close>
  \<open>kill\<close> sends a signal and returns. The cancel callback of a session execution awaits
  the abort of the active session, which may reject; \<open>cancel_result\<close> is the message it
  rejects with, if it does.
\<close>

definition stopExecution :: "manager \<Rightarrow> jstring \<Rightarrow> jstring option \<Rightarrow> jstring + manager" where
  "stopExecution mgr pid cancel_result =
     (case runningProcesses mgr pid of
        None \<Rightarrow> Inl (lit ''Process not found: '' @ pid)
      | Some info \<Rightarrow>
          if has_process info then Inr (set_status pid E_stopped mgr)
          else (case cancel_result of
                  Some message \<Rightarrow> Inl message
                | None \<Rightarrow> Inr (set_status pid E_stopped mgr)))"

subsection \<open>The one-shot path\<close>

text \<open>
  What a spawned process does, as the sequence of the events it raises; \<open>Stop_execution\<close>
  marks a call of \<open>stopExecution\<close> for this execution between two of them.
\<close>

datatype proc_event =
    Stdout_data jstring
  | Stderr_data jstring
  | Close "nat option"
  | Error_event jstring
  | Stop_execution

record execution =
  mgr :: manager
  subj :: subject

definition exit_code_text :: "nat option \<Rightarrow> jstring" where
  "exit_code_text code = (case code of None \<Rightarrow> lit ''null'' | Some n \<Rightarrow> dec n)"

text \<open>
  \<^verbatim>\<open>
  childProcess.stdout?.on('data', (data) => { subject.next({type: 'stdout', ...}); });
  childProcess.stderr?.on('data', (data) => { subject.next({type: 'stderr', ...}); });
  childProcess.on('close', (code: number | null) => {
    const processInfo = this.runningProcesses.get(finalProcessId);
    if (processInfo) { processInfo.status = code === 0 ? 'completed' : 'failed'; }
    subject.next({ type: 'complete', data: `Process exited with code: ${code}`, ... });
    subject.complete();
  });
  childProcess.on('error', (error: Error) => {
    const processInfo = this.runningProcesses.get(finalProcessId);
    if (processInfo) { processInfo.status = 'failed'; }
    subject.next({ type: 'error', data: error.message, ... });
    subject.error(error);
  });
  \<close>
\<close>

fun on_proc_event :: "jstring \<Rightarrow> execution \<Rightarrow> proc_event \<Rightarrow> execution" where
  "on_proc_event pid ex (Stdout_data d) =
     ex\<lparr>subj := subject_next \<lparr>otype = Stdout, data = d\<rparr> (subj ex)\<rparr>"
| "on_proc_event pid ex (Stderr_data d) =
     ex\<lparr>subj := subject_next \<lparr>otype = Stderr, data = d\<rparr> (subj ex)\<rparr>"
| "on_proc_event pid ex (Close code) =
     \<lparr>mgr = set_status pid (if code = Some 0 then E_completed else E_failed) (mgr ex),
      subj = subject_complete
               (subject_next
                  \<lparr>otype = Complete,
                   data = lit ''Process exited with code: '' @ exit_code_text code\<rparr>
                  (subj ex))\<rparr>"
| "on_proc_event pid ex (Error_event message) =
     \<lparr>mgr = set_status pid E_failed (mgr ex),
      subj = subject_error (Error_object message)
               (subject_next \<lparr>otype = Error, data = message\<rparr> (subj ex))\<rparr>"
| "on_proc_event pid ex Stop_execution =
     (case stopExecution (mgr ex) pid None of
        Inl message \<Rightarrow> ex
      | Inr m \<Rightarrow> ex\<lparr>mgr := m\<rparr>)"

subsection \<open>The session path: what the adapter calls back\<close>

datatype tool_event_type = TE_start | TE_end | TE_error

record tool_event =
  te_type :: tool_event_type
  toolName :: jstring
  te_error :: "jstring option"

datatype await_result = Resolves | Rejects thrown

text \<open>
  The events that arrive while \<open>sendAndWait\<close> is pending: the events of the session
  (a tool name is absent when the payload carries no string), the tool events that the
  handlers of the adapter's own tools raise, and calls of \<open>stopExecution\<close>, each with the
  message its abort rejects with, if any.
\<close>

datatype session_event =
    Message_delta jstring
  | Message jstring
  | Tool_execution_start "jstring option"
  | Tool_execution_complete "jstring option" bool "jstring option"
  | Tool_execution_error "jstring option" "jstring option"
  | Other_event
  | Handler_tool_event tool_event
  | Stop_called "jstring option"

record sdk_world =
  client_started :: bool
  startClient :: await_result
  stop_during_setup :: "jstring option option"
  createSession :: await_result
  session_events :: "session_event list"
  sendAndWait :: await_result

datatype sdk_action =
    On_output agent_output
  | On_tool_event tool_event
  | Cancel "jstring option"

definition tool_name_or_unknown :: "jstring option \<Rightarrow> jstring" where
  "tool_name_or_unknown n = (case n of Some s \<Rightarrow> s | None \<Rightarrow> lit ''unknown_tool'')"

text \<open>
  The handler registered with \<open>session.on\<close>, which returns at once when the execution
  has been cancelled, together with the two other sources of events. The result is the
  callbacks made and the value of \<open>cancelled\<close> afterwards.
\<close>

fun on_session_event :: "bool \<Rightarrow> session_event \<Rightarrow> sdk_action list \<times> bool" where
  "on_session_event cancelled (Stop_called r) = ([Cancel r], True)"
| "on_session_event cancelled (Handler_tool_event e) = ([On_tool_event e], cancelled)"
| "on_session_event cancelled (Message_delta d) =
     (if cancelled then [] else [On_output \<lparr>otype = Stdout, data = d\<rparr>], cancelled)"
| "on_session_event cancelled (Message c) =
     (if cancelled then [] else [On_output \<lparr>otype = Stdout, data = 10 # c\<rparr>], cancelled)"
| "on_session_event cancelled (Tool_execution_start n) =
     (if cancelled then []
      else [On_tool_event \<lparr>te_type = TE_start, toolName = tool_name_or_unknown n,
                           te_error = None\<rparr>], cancelled)"
| "on_session_event cancelled (Tool_execution_complete n success err) =
     (if cancelled then []
      else if \<not> success
      then [On_tool_event \<lparr>te_type = TE_error, toolName = tool_name_or_unknown n,
              te_error = Some (case err of Some m \<Rightarrow> m | None \<Rightarrow> lit ''Tool failed'')\<rparr>]
      else [On_tool_event \<lparr>te_type = TE_end, toolName = tool_name_or_unknown n,
              te_error = None\<rparr>], cancelled)"
| "on_session_event cancelled (Tool_execution_error n err) =
     (if cancelled then []
      else [On_tool_event \<lparr>te_type = TE_error, toolName = tool_name_or_unknown n,
              te_error = Some (case err of Some m \<Rightarrow> m | None \<Rightarrow> lit ''Tool execution error'')\<rparr>],
      cancelled)"
| "on_session_event cancelled Other_event = ([], cancelled)"

fun on_session_events :: "bool \<Rightarrow> session_event list \<Rightarrow> sdk_action list \<times> bool" where
  "on_session_events cancelled [] = ([], cancelled)"
| "on_session_events cancelled (e # es) =
     (let (a1, c1) = on_session_event cancelled e;
          (a2, c2) = on_session_events c1 es
      in (a1 @ a2, c2))"

text \<open>
  \<open>executeSdk\<close> starts an asynchronous body and returns \<open>{cancel, done}\<close>. The body runs
  synchronously up to its first \<open>await\<close>, that is, inside the call of \<open>executeSdk\<close>:
  \<^verbatim>\<open>
  const done = (async () => {
    try {
      if (!this.client) {
        onOutput({ type: 'status', data: 'Connecting to Copilot SDK...', ... });
        await this.startClient();
      }
      const modelDisplay = task.model || 'default';
      onOutput({ type: 'status', data: `Creating session with model: ${modelDisplay}...`, ... });
      const session = await this.createSession(...);
      session.on((event) => { if (cancelled) return; ... });
      onOutput({ type: 'status', data: `Starting task: ${task.title}`, ... });
      await session.sendAndWait({ prompt }, config.sessionTimeoutMs);
      if (!cancelled) {
        onOutput({ type: 'complete', data: 'Task completed successfully', ... });
      }
    } catch (error) {
      if (!cancelled) {
        onOutput({ type: 'error',
                   data: error instanceof Error ? error.message : 'Unknown error', ... });
      }
    }
  })();
  \<close>
  \<open>executeSdk_sync\<close> is the part before the first \<open>await\<close>, \<open>executeSdk_async\<close> the rest.
  The body catches whatever is thrown, so \<open>done\<close> always resolves.
\<close>

definition connecting :: agent_output where
  "connecting = \<lparr>otype = Status, data = lit ''Connecting to Copilot SDK...''\<rparr>"

definition creating_session :: "task_prompt \<Rightarrow> agent_output" where
  "creating_session task =
     \<lparr>otype = Status,
      data = lit ''Creating session with model: ''
             @ (case model task of
                  None \<Rightarrow> lit ''default''
                | Some m \<Rightarrow> if m = [] then lit ''default'' else m)
             @ lit ''...''\<rparr>"

definition catch_block :: "bool \<Rightarrow> thrown \<Rightarrow> sdk_action list" where
  "catch_block cancelled e =
     (if cancelled then [] else [On_output \<lparr>otype = Error, data = error_message e\<rparr>])"

definition executeSdk_sync :: "task_prompt \<Rightarrow> sdk_world \<Rightarrow> sdk_action list" where
  "executeSdk_sync task w =
     (if client_started w then [On_output (creating_session task)]
      else [On_output connecting])"

definition after_createSession :: "bool \<Rightarrow> task_prompt \<Rightarrow> sdk_world \<Rightarrow> sdk_action list" where
  "after_createSession cancelled task w =
     (case createSession w of
        Rejects e \<Rightarrow> catch_block cancelled e
      | Resolves \<Rightarrow>
          (let (acts, c) = on_session_events cancelled (session_events w)
           in On_output \<lparr>otype = Status, data = lit ''Starting task: '' @ prompt_title task\<rparr>
              # acts
              @ (case sendAndWait w of
                   Rejects e \<Rightarrow> catch_block c e
                 | Resolves \<Rightarrow>
                     if c then []
                     else [On_output \<lparr>otype = Complete,
                                      data = lit ''Task completed successfully''\<rparr>])))"

definition executeSdk_async :: "task_prompt \<Rightarrow> sdk_world \<Rightarrow> sdk_action list" where
  "executeSdk_async task w =
     (let stop = (case stop_during_setup w of None \<Rightarrow> [] | Some r \<Rightarrow> [Cancel r]);
          cancelled = (stop_during_setup w \<noteq> None)
      in stop @
         (if client_started w then after_createSession cancelled task w
          else (case startClient w of
                  Rejects e \<Rightarrow> catch_block cancelled e
                | Resolves \<Rightarrow>
                    On_output (creating_session task) # after_createSession cancelled task w)))"

subsection \<open>The session path: what the registry does with the callbacks\<close>

text \<open>
  The texts of \<open>formatToolStatus\<close> begin with a pictograph; these are the code units of
  the three prefixes as the source file has them.
\<close>

definition formatToolStatus :: "tool_event \<Rightarrow> jstring" where
  "formatToolStatus e =
     (case te_type e of
        TE_start \<Rightarrow> [63743, 252, 238, 223, 32] @ toolName e @ lit '' started''
      | TE_end \<Rightarrow> [8218, 250, 214, 32] @ toolName e @ lit '' completed''
      | TE_error \<Rightarrow>
          [8218, 249, 229, 32] @ toolName e @ lit '' failed: ''
          @ (case te_error e of
               None \<Rightarrow> lit ''Unknown error''
             | Some m \<Rightarrow> if m = [] then lit ''Unknown error'' else m))"

definition tool_output_type :: "tool_event_type \<Rightarrow> output_type" where
  "tool_output_type t = (case t of TE_start \<Rightarrow> Tool_start | TE_end \<Rightarrow> Tool_end | TE_error \<Rightarrow> Tool_error)"

text \<open>
  \<^verbatim>\<open>
  const handleSdkOutput = (output: AgentOutput) => {
    const processInfo = this.runningProcesses.get(finalProcessId);
    if (processInfo) {
      if (output.type === 'complete') processInfo.status = 'completed';
      if (output.type === 'error') processInfo.status = 'failed';
    }
    subject.next(output);
  };
  const handleToolEvent = (event: ToolExecutionEvent) => {
    const statusText = this.formatToolStatus(event);
    subject.next({ type: 'status', data: statusText, ... });
    subject.next({ type: event.type, data: statusText, ... });
  };
  \<close>
  A cancel that rejects makes \<open>stopExecution\<close> throw to its caller and leaves the registry
  as it was.
\<close>

fun on_sdk_action :: "jstring \<Rightarrow> execution \<Rightarrow> sdk_action \<Rightarrow> execution" where
  "on_sdk_action pid ex (On_output out) =
     \<lparr>mgr = (if otype out = Complete then set_status pid E_completed (mgr ex)
             else if otype out = Error then set_status pid E_failed (mgr ex)
             else mgr ex),
      subj = subject_next out (subj ex)\<rparr>"
| "on_sdk_action pid ex (On_tool_event e) =
     ex\<lparr>subj := subject_next \<lparr>otype = tool_output_type (te_type e), data = formatToolStatus e\<rparr>
                (subject_next \<lparr>otype = Status, data = formatToolStatus e\<rparr> (subj ex))\<rparr>"
| "on_sdk_action pid ex (Cancel r) =
     (case stopExecution (mgr ex) pid r of
        Inl message \<Rightarrow> ex
      | Inr m \<Rightarrow> ex\<lparr>mgr := m\<rparr>)"

text \<open>
  \<^verbatim>\<open>
  execution.done
    .then(() => {
      const processInfo = this.runningProcesses.get(finalProcessId);
      if (processInfo && processInfo.status === 'running') { processInfo.status = 'completed'; }
    })
    .catch(() => { ... })
    .finally(() => { subject.complete(); });
  \<close>
\<close>

definition on_done :: "jstring \<Rightarrow> execution \<Rightarrow> execution" where
  "on_done pid ex =
     \<lparr>mgr = (if getExecutionStatus (mgr ex) pid = Some E_running
             then set_status pid E_completed (mgr ex) else mgr ex),
      subj = subject_complete (subj ex)\<rparr>"

subsection \<open>executeTask of the registry\<close>

text \<open>
  The world of one execution: the clock at the call, whether \<open>adapter.execute\<close> throws
  and what the spawned process then does (one-shot path), and the world of the session
  adapter (session path).
\<close>

record exec_world =
  now :: nat
  execute_throws :: "thrown option"
  proc_events :: "proc_event list"
  sdk :: sdk_world

definition finalProcessId :: "jstring \<Rightarrow> task_prompt \<Rightarrow> jstring option \<Rightarrow> nat \<Rightarrow> jstring" where
  "finalProcessId agentId task processId t =
     (let generated = agentId @ lit ''-'' @ prompt_id task @ lit ''-'' @ dec t
      in case processId of
           None \<Rightarrow> generated
         | Some p \<Rightarrow> if p = [] then generated else p)"

definition started :: "adapter \<Rightarrow> task_prompt \<Rightarrow> agent_output" where
  "started a task =
     \<lparr>otype = Status,
      data = lit ''Started '' @ adapter_name a @ lit '' for task: '' @ prompt_title task\<rparr>"

definition track :: "jstring \<Rightarrow> bool \<Rightarrow> jstring \<Rightarrow> task_prompt \<Rightarrow> manager \<Rightarrow> manager" where
  "track pid proc agentId task m =
     m\<lparr>runningProcesses := (runningProcesses m)
          (pid \<mapsto> \<lparr>has_process = proc, rp_agentId = agentId, rp_taskId = prompt_id task,
                   exec_status = E_running\<rparr>)\<rparr>"

text \<open>
  The synchronous part of \<open>executeTask\<close>, up to \<open>return subject.asObservable()\<close>. It
  throws for an unknown agent. On the session path the adapter is called first, then the
  execution is tracked, then the status line is emitted; on the one-shot path the process
  is spawned, tracked, and the status line is emitted before the listeners are attached.
  A throw of \<open>adapter.execute\<close> is caught, emitted as an \<open>error\<close> event, and closes the
  subject with the error.
\<close>

definition executeTask_sync ::
  "manager \<Rightarrow> jstring \<Rightarrow> task_prompt \<Rightarrow> jstring option \<Rightarrow> exec_world \<Rightarrow> jstring + execution" where
  "executeTask_sync m agentId task processId w =
     (case adapters m agentId of
        None \<Rightarrow> Inl (lit ''Agent not found: '' @ agentId)
      | Some a \<Rightarrow>
          (let pid = finalProcessId agentId task processId (now w);
               ex0 = \<lparr>mgr = m, subj = subject_new\<rparr>
           in if has_executeSdk a then
                (let ex1 = foldl (on_sdk_action pid) ex0 (executeSdk_sync task (sdk w));
                     ex2 = ex1\<lparr>mgr := track pid False agentId task (mgr ex1)\<rparr>
                 in Inr (ex2\<lparr>subj := subject_next (started a task) (subj ex2)\<rparr>))
              else
                (case execute_throws w of
                   Some e \<Rightarrow>
                     Inr (ex0\<lparr>subj := subject_error e
                                 (subject_next \<lparr>otype = Error, data = error_message e\<rparr>
                                    (subj ex0))\<rparr>)
                 | None \<Rightarrow>
                     (let ex1 = ex0\<lparr>mgr := track pid True agentId task (mgr ex0)\<rparr>
                      in Inr (ex1\<lparr>subj := subject_next (started a task) (subj ex1)\<rparr>)))))"

text \<open>Everything that happens to the execution after \<open>executeTask\<close> has returned.\<close>

definition executeTask_async ::
  "manager \<Rightarrow> jstring \<Rightarrow> task_prompt \<Rightarrow> jstring option \<Rightarrow> exec_world \<Rightarrow> execution \<Rightarrow> execution" where
  "executeTask_async m agentId task processId w ex =
     (case adapters m agentId of
        None \<Rightarrow> ex
      | Some a \<Rightarrow>
          (let pid = finalProcessId agentId task processId (now w)
           in if has_executeSdk a
              then on_done pid (foldl (on_sdk_action pid) ex (executeSdk_async task (sdk w)))
              else (case execute_throws w of
                      Some e \<Rightarrow> ex
                    | None \<Rightarrow> foldl (on_proc_event pid) ex (proc_events w))))"

text \<open>The whole execution: the error thrown at the call, or the final state.\<close>

definition execution_of ::
  "manager \<Rightarrow> jstring \<Rightarrow> task_prompt \<Rightarrow> jstring option \<Rightarrow> exec_world \<Rightarrow> jstring + execution" where
  "execution_of m agentId task processId w =
     (case executeTask_sync m agentId task processId w of
        Inl message \<Rightarrow> Inl message
      | Inr ex \<Rightarrow> Inr (executeTask_async m agentId task processId w ex))"

text \<open>
  The call as the orchestrator sees it: \<open>agentManager.executeTask\<close> throws, or returns
  an observable to which the orchestrator subscribes at once.
\<close>

definition agent_run_of ::
  "manager \<Rightarrow> jstring \<Rightarrow> task_prompt \<Rightarrow> jstring option \<Rightarrow> exec_world \<Rightarrow> agent_run" where
  "agent_run_of m agentId task processId w =
     (case executeTask_sync m agentId task processId w of
        Inl message \<Rightarrow> Agent_throws message
      | Inr ex \<Rightarrow>
          Streams (delivered (subj ex)
                     (subj (executeTask_async m agentId task processId w ex))))"

definition terminal :: "agent_output \<Rightarrow> bool" where
  "terminal out = (otype out = Complete \<or> otype out = Error)"

subsection \<open>Notions used to state the properties of the registry\<close>


definition is_stop :: "session_event \<Rightarrow> bool" where
  "is_stop e = (case e of Stop_called r \<Rightarrow> True | _ \<Rightarrow> False)"

text \<open>
  A session execution that is cancelled: \<open>stopExecution\<close> is called while the body
  waits for the client or for the session, or it is called among the events of the
  session, which the body reaches when the client is started (or starts) and the session
  is created. This is the value of the variable \<open>cancelled\<close> of \<open>executeSdk\<close> when
  its body ends.
\<close>

definition session_cancelled :: "sdk_world \<Rightarrow> bool" where
  "session_cancelled w =
     (case stop_during_setup w of
        Some r \<Rightarrow> True
      | None \<Rightarrow>
          (if client_started w then True else startClient w = Resolves)
          \<and> createSession w = Resolves
          \<and> list_ex is_stop (session_events w))"


text \<open>The last event is terminal, and it is the only terminal one.\<close>

definition ends_with_one_terminal :: "agent_output list \<Rightarrow> bool" where
  "ends_with_one_terminal evs =
     (case rev evs of [] \<Rightarrow> False | e # before \<Rightarrow> terminal e \<and> list_all (\<lambda>x. \<not> terminal x) before)"

text \<open>No event is terminal.\<close>

definition no_terminal :: "agent_output list \<Rightarrow> bool" where
  "no_terminal evs = list_all (\<lambda>e. \<not> terminal e) evs"



text \<open>A callback that carries a terminal event; a list of callbacks without any.\<close>

definition terminal_action :: "sdk_action \<Rightarrow> bool" where
  "terminal_action a = (case a of On_output out \<Rightarrow> terminal out | _ \<Rightarrow> False)"

definition quiet :: "sdk_action list \<Rightarrow> bool" where
  "quiet acts = list_all (\<lambda>a. \<not> terminal_action a) acts"

text \<open>
  The callbacks of the asynchronous part: quiet ones, then at most one terminal output.
\<close>

definition closing_actions :: "sdk_action list \<Rightarrow> bool" where
  "closing_actions fin =
     (case fin of
        [] \<Rightarrow> True
      | a # others \<Rightarrow> others = [] \<and> terminal_action a)"

text \<open>The registry never closes the subject while it handles a callback.\<close>

definition open_quiet :: "subject \<Rightarrow> bool" where
  "open_quiet sub = (closed sub = None \<and> no_terminal (emitted sub))"


text \<open>The data events of a process.\<close>

definition is_data :: "proc_event \<Rightarrow> bool" where
  "is_data e = (case e of Stdout_data d \<Rightarrow> True | Stderr_data d \<Rightarrow> True | _ \<Rightarrow> False)"

section \<open>The find\_files tool: glob patterns\<close>

definition starts_with :: "jstring \<Rightarrow> jstring \<Rightarrow> bool" where
  "starts_with p s = (take (length p) s = p)"

text \<open>
  \<open>s.replace(/p/g, r)\<close> for an expression that matches exactly the non-empty text \<open>p\<close>
  and a replacement \<open>r\<close> without dollar signs: every occurrence of \<open>p\<close>, found from left
  to right without overlap, becomes \<open>r\<close>.
\<close>

fun replace_all :: "jstring \<Rightarrow> jstring \<Rightarrow> jstring \<Rightarrow> jstring" where
  "replace_all p r [] = []"
| "replace_all p r (c # cs) =
     (if p \<noteq> [] \<and> starts_with p (c # cs)
      then r @ replace_all p r (drop (length p - 1) cs)
      else c # replace_all p r cs)"

text \<open>
  \<^verbatim>\<open>
  const regexPattern = pattern
    .replace(/\*\*/g, '{{GLOBSTAR}}')
    .replace(/\*/g, '[^/]*')
    .replace(/\?/g, '[^/]')
    .replace(/{{GLOBSTAR}}/g, '.*')
    .replace(/\./g, '\\.');
  const regex = new RegExp(`^${regexPattern}$`);
  \<close>
  The last replacement string is a backslash and a dot (code units 92 and 46).
\<close>

definition regexPattern :: "jstring \<Rightarrow> jstring" where
  "regexPattern pattern =
     replace_all (lit ''.'') [92, 46]
       (replace_all (lit ''{{GLOBSTAR}}'') (lit ''.*'')
          (replace_all (lit ''?'') (lit ''[^/]'')
             (replace_all (lit ''*'') (lit ''[^/]*'')
                (replace_all (lit ''**'') (lit ''{{GLOBSTAR}}'') pattern))))"

text \<open>
  The constructor \<open>RegExp\<close> on such a source. The parser below reads the fragment of
  section ``Regular expressions'': a backslash before a dot is a literal dot, a dot is
  the dot, \<^verbatim>\<open>[^/]\<close> is the class, any character without a meaning in the syntax
  (the syntax characters are \<^verbatim>\<open>\ ^ $ . * + ? ( ) [ ] { } |\<close>) is itself,
  and a star after one of these repeats it. The result is \<open>None\<close> for a source outside
  the fragment.
\<close>

definition syntax_character :: "nat \<Rightarrow> bool" where
  "syntax_character c =
     (c \<in> set [92, 94, 36, 46, 42, 43, 63, 40, 41, 91, 93, 123, 125, 124])"

definition parse_atom :: "jstring \<Rightarrow> (rx_atom \<times> jstring) option" where
  "parse_atom s =
     (case s of
        [] \<Rightarrow> None
      | c # cs \<Rightarrow>
          if c = 92 then
            (case cs of [] \<Rightarrow> None | d # r \<Rightarrow> if d = 46 then Some (Chr 46, r) else None)
          else if c = 91 then
            (if starts_with (lit ''^/]'') cs then Some (NotChr 47, drop 3 cs) else None)
          else if c = 46 then Some (AnyChar, cs)
          else if syntax_character c then None
          else Some (Chr c, cs))"

lemma parse_atom_shorter: "parse_atom s = Some (a, r) \<Longrightarrow> length r < length s"
  by (auto simp: parse_atom_def split: list.splits if_splits)

function parse_items :: "jstring \<Rightarrow> rx_item list option" where
  "parse_items s =
     (if s = [] then Some []
      else
        (case parse_atom s of
           None \<Rightarrow> None
         | Some (a, r) \<Rightarrow>
             (case r of
                [] \<Rightarrow> Some [One a]
              | q # r' \<Rightarrow>
                  if q = 42 then map_option ((#) (Star a)) (parse_items r')
                  else map_option ((#) (One a)) (parse_items r))))"
  by pat_completeness auto
termination
  by (relation "measure length") (auto dest: parse_atom_shorter)

declare parse_items.simps [simp del]

definition glob_regex :: "jstring \<Rightarrow> regex option" where
  "glob_regex pattern =
     map_option (\<lambda>items. \<lparr>rx_items = items, ignoreCase = False, anchored = True\<rparr>)
       (parse_items (regexPattern pattern))"

text \<open>
  Whether the tool reports a file path for a pattern: the test \<open>regex.test(file.path)\<close>
  of its loop. \<open>None\<close> when the pattern is outside the fragment.
\<close>

definition glob_matches :: "jstring \<Rightarrow> jstring \<Rightarrow> bool option" where
  "glob_matches pattern path = map_option (\<lambda>r. rx_test r path) (glob_regex pattern)"

section \<open>The tools of the session adapter\<close>

text \<open>
  \<open>defineTools(projectPath, onToolEvent)\<close> returns eleven tools. Each handler is an
  asynchronous function of one shape: it reports \<open>tool_start\<close>, runs its body inside
  \<open>try\<close>, reports \<open>tool_end\<close> and returns an object with \<open>success: true\<close>, and its
  \<open>catch\<close> block reports \<open>tool_error\<close> and returns an object with \<open>success: false\<close>
  and the message. The handlers are modelled one by one, statement by statement, as
  computations that report events and either return a value or throw. What the body
  obtains from the file system, from child processes and from library calls is given by
  a world; every operation of the world that can throw returns the thrown value on the
  left.
\<close>

subsection \<open>Values and the world\<close>

record file_entry =
  entry_name :: jstring
  is_file :: bool
  entry_path :: jstring

record search_hit =
  hit_file :: jstring
  hit_line :: nat
  hit_content :: jstring
  hit_match :: jstring

record web_result =
  web_title :: jstring
  web_snippet :: jstring
  web_url :: jstring

datatype jsvalue =
    JS_string jstring
  | JS_number nat
  | JS_bool bool
  | JS_strings "jstring list"
  | JS_entries "file_entry list"
  | JS_hits "search_hit list"
  | JS_results "web_result list"
  | JS_details "(jstring \<times> bool) list"

text \<open>
  The object a handler returns: the field \<open>success\<close>, the field \<open>error\<close> when present,
  and the other fields in the order of the object literal.
\<close>

record tool_result =
  success :: bool
  error :: "jstring option"
  other_fields :: "(string \<times> jsvalue) list"








subsection \<open>Statements that report events, return or throw\<close>












subsection \<open>edit\_file, read\_file, delete\_file, list\_files\<close>





subsection \<open>run\_command\<close>





subsection \<open>search\_code\<close>



subsection \<open>find\_files\<close>






subsection \<open>apply\_patch\<close>






subsection \<open>collab\_web\_search and web\_fetch\<close>





subsection \<open>todo\_write\<close>








subsection \<open>The registry of tools\<close>





subsection \<open>Notions used to state the properties of the tools\<close>







section \<open>Scenarios\<close>

text \<open>
  Concrete tasks, task attempts, phases and executions, at which the theorems below are
  instantiated and on which the program is run.
\<close>

definition task_A :: task where
  "task_A = \<lparr>task_id = 1, title = lit ''A'', description = None, task_status = T_pending\<rparr>"

definition task_B :: task where
  "task_B = \<lparr>task_id = 2, title = lit ''B'', description = None, task_status = T_pending\<rparr>"

definition task_C :: task where
  "task_C = \<lparr>task_id = 3, title = lit ''C'', description = None, task_status = T_pending\<rparr>"

definition chunk :: "string \<Rightarrow> agent_output" where
  "chunk s = \<lparr>otype = Stdout, data = lit s\<rparr>"

definition api_key_chunks :: "agent_output list" where
  "api_key_chunks = [chunk ''ok'', chunk ''BLOCKED: missing API key'', chunk ''more'']"

definition clean_run :: task_run where
  "clean_run =
     \<lparr>run = Streams \<lparr>events = [chunk ''ok''], ending = Completes\<rparr>,
      run_duration = 5, stop_requested = False\<rparr>"

definition clean_stop_run :: task_run where
  "clean_stop_run = clean_run\<lparr>stop_requested := True\<rparr>"

definition api_key_run :: task_run where
  "api_key_run =
     \<lparr>run = Streams \<lparr>events = api_key_chunks, ending = Completes\<rparr>,
      run_duration = 7, stop_requested = False\<rparr>"

definition api_key_stop_run :: task_run where
  "api_key_stop_run = api_key_run\<lparr>stop_requested := True\<rparr>"

definition api_key_error_run :: task_run where
  "api_key_error_run =
     \<lparr>run = Streams \<lparr>events = api_key_chunks, ending = Errors (Error_object (lit ''read EPIPE''))\<rparr>,
      run_duration = 7, stop_requested = False\<rparr>"



definition idle :: orchestrator where
  "idle = \<lparr>isRunning = False, shouldStop = False\<rparr>"



text \<open>Tasks A, B: the stream of A carries a blocker marker and then errors.\<close>

definition phase_error_after_blocker :: phase_world where
  "phase_error_after_blocker =
     \<lparr>syncContext = None,
      fetchTasksByPhase = Inr [task_A, task_B],
      stop_before_loop = False,
      runs = (\<lambda>i. if i = 0 then api_key_error_run else clean_run),
      elapsed = 20\<rparr>"

text \<open>Tasks A, B, C: a graceful stop is requested while A, which completes cleanly, runs.\<close>

definition phase_stop_during_clean :: phase_world where
  "phase_stop_during_clean =
     \<lparr>syncContext = None,
      fetchTasksByPhase = Inr [task_A, task_B, task_C],
      stop_before_loop = False,
      runs = (\<lambda>i. if i = 0 then clean_stop_run else clean_run),
      elapsed = 20\<rparr>"

text \<open>Tasks A, B: a graceful stop is requested while A, which reports a blocker, runs.\<close>

definition phase_stop_during_blocked :: phase_world where
  "phase_stop_during_blocked =
     \<lparr>syncContext = None,
      fetchTasksByPhase = Inr [task_A, task_B],
      stop_before_loop = False,
      runs = (\<lambda>i. if i = 0 then api_key_stop_run else clean_run),
      elapsed = 20\<rparr>"

text \<open>
  The registry after its constructor: the session adapter and the two one-shot adapters.
\<close>

definition registered :: manager where
  "registered =
     \<lparr>adapters = map_of
        [(lit ''github-copilot-sdk'',
            \<lparr>adapter_name = lit ''GitHub Copilot (SDK)'', has_executeSdk = True\<rparr>),
         (lit ''github-copilot'',
            \<lparr>adapter_name = lit ''GitHub Copilot'', has_executeSdk = False\<rparr>),
         (lit ''claude-code'',
            \<lparr>adapter_name = lit ''Claude Code'', has_executeSdk = False\<rparr>)],
      runningProcesses = map_of []\<rparr>"

definition prompt_42 :: task_prompt where
  "prompt_42 = \<lparr>prompt_id = lit ''42'', prompt_title = lit ''Add tests'', model = None\<rparr>"

definition session_world :: "session_event list \<Rightarrow> await_result \<Rightarrow> exec_world" where
  "session_world evs result =
     \<lparr>now = 1000, execute_throws = None, proc_events = [],
      sdk = \<lparr>client_started = True, startClient = Resolves, stop_during_setup = None,
             createSession = Resolves, session_events = evs, sendAndWait = result\<rparr>\<rparr>"

definition process_world :: "proc_event list \<Rightarrow> exec_world" where
  "process_world evs =
     \<lparr>now = 1000, execute_throws = None, proc_events = evs,
      sdk = \<lparr>client_started = False, startClient = Resolves, stop_during_setup = None,
             createSession = Resolves, session_events = [], sendAndWait = Resolves\<rparr>\<rparr>"

text \<open>A session execution without incident; one that is stopped while the model answers.\<close>

definition plain_session :: exec_world where
  "plain_session = session_world [Message_delta (lit ''done'')] Resolves"



text \<open>A process that prints a line and exits with code 2.\<close>

definition failing_process :: exec_world where
  "failing_process = process_world [Stdout_data (lit ''boom''), Close (Some 2)]"

text \<open>The events emitted on the channel of an execution, and how the channel was closed.\<close>

definition emitted_of :: "jstring + execution \<Rightarrow> agent_output list" where
  "emitted_of x = (case x of Inl message \<Rightarrow> [] | Inr ex \<Rightarrow> emitted (subj ex))"

definition closed_of :: "jstring + execution \<Rightarrow> notification option" where
  "closed_of x = (case x of Inl message \<Rightarrow> None | Inr ex \<Rightarrow> closed (subj ex))"

text \<open>A registry that tracks one finished process.\<close>

definition finished :: manager where
  "finished =
     registered\<lparr>runningProcesses := map_of
        [(lit ''p1'', \<lparr>has_process = True, rp_agentId = lit ''github-copilot'',
                       rp_taskId = lit ''42'', exec_status = E_completed\<rparr>)]\<rparr>"

definition status_after_stop :: "jstring + manager \<Rightarrow> jstring \<Rightarrow> exec_status option" where
  "status_after_stop x pid =
     (case x of Inl message \<Rightarrow> None | Inr m \<Rightarrow> getExecutionStatus m pid)"



section \<open>Properties of the text capping\<close>

lemma length_lit [simp]: "length (lit s) = length s"
  by (simp add: lit_def)

lemma length_truncation_marker:
  "length (truncation_marker n) = 26 + length (dec n)"
  by (simp add: truncation_marker_def)

lemma length_dec_le: "n < 10 ^ k \<Longrightarrow> 0 < k \<Longrightarrow> length (dec n) \<le> k"
proof (induction n arbitrary: k rule: dec.induct)
  case (1 n)
  show ?case
  proof (cases "n < 10")
    case True
    with "1.prems" show ?thesis by (simp add: dec.simps [of n])
  next
    case False
    with "1.prems" obtain j where k: "k = Suc j"
      by (cases k) auto
    from False "1.prems" k have j: "0 < j"
      by (cases j) auto
    from "1.prems" k have "n div 10 < 10 ^ j"
      by (simp add: less_mult_imp_div_less mult.commute)
    with "1.IH" [of j] False j have "length (dec (n div 10)) \<le> j" by simp
    with False k show ?thesis by (simp add: dec.simps [of n])
  qed
qed

lemma length_dec_pos: "0 < length (dec n)"
  by (simp add: dec.simps [of n])

lemma length_stripAnsi_le: "length (stripAnsi s) \<le> length s"
proof (induction s rule: stripAnsi.induct)
  case 1
  show ?case by simp
next
  case (2 c cs)
  show ?case
  proof (cases "c = 27")
    case False
    with 2 show ?thesis by simp
  next
    case True
    show ?thesis
    proof (cases "ansi_tail cs")
      case None
      with True 2 show ?thesis by simp
    next
      case (Some r)
      with True 2 have "length (stripAnsi r) \<le> length r" by simp
      moreover from Some have "length r < length cs" by (rule ansi_tail_shorter)
      ultimately show ?thesis using True Some by simp
    qed
  qed
qed

lemma stripAnsi_no_esc: "27 \<notin> set s \<Longrightarrow> stripAnsi s = s"
  by (induction s) auto

lemma truncateText_long:
  assumes "maxChars < length input" and "2 \<le> maxChars"
  shows "truncateText input maxChars =
           take (maxChars div 2) input
           @ truncation_marker (length input - 2 * (maxChars div 2))
           @ drop (length input - maxChars div 2) input"
proof -
  define h where "h = maxChars div 2"
  from assms have h: "h \<noteq> 0" "h \<le> length input" "\<not> length input \<le> maxChars"
    by (auto simp: h_def)
  then have "length input - min (length input) h - (length input - (length input - h))
             = length input - 2 * h"
    by auto
  with h show ?thesis
    unfolding truncateText_def slice_from_end_def Let_def h_def [symmetric]
    by simp
qed

text \<open>The number written into the marker is never a negative one.\<close>

lemma truncateText_dropped:
  assumes "maxChars < length input"
  shows "length (take (maxChars div 2) input)
           + length (slice_from_end (maxChars div 2) input) \<le> length input"
  using assms by (auto simp: slice_from_end_def)

lemma length_dec_30000: "length (dec 30000) = 5"
  by (simp add: dec.simps [of "numeral n" for n])

lemma truncateText_length_bound:
  assumes "length s \<le> 50000"
  shows "length (truncateText s 20000) \<le> 20000 + length (truncation_marker 30000)"
proof (cases "length s \<le> 20000")
  case True
  then show ?thesis by (simp add: truncateText_def)
next
  case False
  then have long: "20000 < length s" by simp
  from assms have "length s - 20000 < 10 ^ 5" by simp
  then have "length (dec (length s - 20000)) \<le> 5"
    by (rule length_dec_le) simp
  with long assms show ?thesis
    by (simp add: truncateText_long length_truncation_marker length_dec_30000)
qed

text \<open>
  Claim C9, as the program has it. For every input of 50,000 code units, \<open>truncateText\<close>
  with the cap 20,000 returns a text of 20,000 code units plus the marker, whose first
  10,000 and last 10,000 code units are those of the input. \<open>safeToolText\<close> removes the
  ANSI colour sequences first and truncates what remains: its result is never longer
  than 20,000 code units plus the marker, and it is the result of \<open>truncateText\<close> on the
  input itself when the input contains no ESC.
\<close>

theorem truncation_50000:
  assumes "length input = 50000"
  shows "length (truncateText input 20000) = 20000 + length (truncation_marker 30000)
       \<and> take 10000 (truncateText input 20000) = take 10000 input
       \<and> drop (length (truncateText input 20000) - 10000) (truncateText input 20000)
           = drop 40000 input
       \<and> length (safeToolText input 20000) \<le> 20000 + length (truncation_marker 30000)
       \<and> (27 \<notin> set input \<longrightarrow> safeToolText input 20000 = truncateText input 20000)"
proof -
  from assms have eq: "truncateText input 20000
      = take 10000 input @ truncation_marker 30000 @ drop 40000 input"
    by (simp add: truncateText_long)
  have len: "length (truncateText input 20000) = 20000 + length (truncation_marker 30000)"
    using assms by (simp add: eq)
  have pre: "take 10000 (truncateText input 20000) = take 10000 input"
    using assms by (simp add: eq)
  have suf: "drop (length (truncateText input 20000) - 10000) (truncateText input 20000)
           = drop 40000 input"
    using assms by (simp add: eq)
  have "length (stripAnsi input) \<le> 50000"
    using length_stripAnsi_le [of input] assms by simp
  then have bound: "length (safeToolText input 20000) \<le> 20000 + length (truncation_marker 30000)"
    unfolding safeToolText_def by (rule truncateText_length_bound)
  have same: "27 \<notin> set input \<longrightarrow> safeToolText input 20000 = truncateText input 20000"
    by (simp add: safeToolText_def stripAnsi_no_esc)
  from len pre suf bound same show ?thesis by blast
qed

theorem truncation_50000_witness:
  "length (replicate 50000 (97::nat)) = 50000
   \<and> 27 \<notin> set (replicate 50000 (97::nat))
   \<and> take 10000 (safeToolText (replicate 50000 97) 20000) = replicate 10000 97
   \<and> length (safeToolText (replicate 50000 97) 20000) = 20031"
proof -
  have l: "length (replicate 50000 (97::nat)) = 50000" by simp
  have n: "27 \<notin> set (replicate 50000 (97::nat))" by simp
  from truncation_50000 [OF l] n
  show ?thesis by (simp add: length_truncation_marker length_dec_30000)
qed

text \<open>
  An input of 50,000 code units that begins with the colour reset sequence: the result of
  \<open>safeToolText\<close> begins with the text after the sequence, not with the first code units
  of the input.
\<close>

lemma stripAnsi_reset_prefix:
  "stripAnsi (27 # 91 # 48 # 109 # replicate n 97) = replicate n 97"
proof -
  have "27 \<notin> set (replicate n (97::nat))" by simp
  then have "stripAnsi (replicate n 97) = replicate n 97" by (rule stripAnsi_no_esc)
  then show ?thesis by (simp add: ansi_tail_def ansi_param_def)
qed

theorem safeToolText_prefix_counterexample:
  "length (27 # 91 # 48 # 109 # replicate 49996 (97::nat)) = 50000
   \<and> take 10000 (safeToolText (27 # 91 # 48 # 109 # replicate 49996 97) 20000)
       \<noteq> take 10000 (27 # 91 # 48 # 109 # replicate 49996 97)"
proof -
  have s: "safeToolText (27 # 91 # 48 # 109 # replicate 49996 97) 20000
           = truncateText (replicate 49996 97) 20000"
    unfolding safeToolText_def stripAnsi_reset_prefix ..
  have a: "take 10000 (truncateText (replicate 49996 (97::nat)) 20000) = replicate 10000 97"
    by (simp add: truncateText_long)
  have "replicate 10000 (97::nat) \<noteq> take 10000 (27 # 91 # 48 # 109 # replicate 49996 97)"
  proof
    assume "replicate 10000 (97::nat) = take 10000 (27 # 91 # 48 # 109 # replicate 49996 97)"
    then have "hd (replicate 10000 (97::nat))
               = hd (take 10000 (27 # 91 # 48 # 109 # replicate 49996 97))"
      by (rule arg_cong)
    then show False by simp
  qed
  then show ?thesis unfolding s a by simp
qed

section \<open>Properties of the blocker detection\<close>

lemma rx_match_stops_at_newline:
  "newline_free ci items \<Longrightarrow>
     rx_match ci False items (l @ 10 # rest) = rx_match ci False items l"
proof (induction ci "False" items l rule: rx_match.induct)
  case (1 ci s)
  show ?case by simp
next
  case (2 ci a r)
  then show ?case by (simp add: newline_free_def item_atom_def)
next
  case (3 ci a r x xs)
  then show ?case by (simp add: newline_free_def)
next
  case (4 ci a r)
  then show ?case by (simp add: newline_free_def item_atom_def)
next
  case (5 ci a r x xs)
  then show ?case by (simp add: newline_free_def)
qed

lemma split_lines_first:
  "\<exists>l ls. split_lines s = l # ls \<and> (s = l \<or> (\<exists>rest. s = l @ 10 # rest))"
proof (induction s)
  case Nil
  show ?case by simp
next
  case (Cons c cs)
  then obtain l ls where sl: "split_lines cs = l # ls"
    and shape: "cs = l \<or> (\<exists>rest. cs = l @ 10 # rest)" by blast
  show ?case
  proof (cases "c = 10")
    case True
    then have "split_lines (c # cs) = [] # split_lines cs" by simp
    moreover from True have "c # cs = [] @ 10 # cs" by simp
    ultimately show ?thesis by blast
  next
    case False
    with sl have "split_lines (c # cs) = (c # l) # ls" by simp
    moreover from shape have "c # cs = c # l \<or> (\<exists>rest. c # cs = (c # l) @ 10 # rest)"
      by auto
    ultimately show ?thesis by blast
  qed
qed

lemma rx_search_step: "rx_search ci items xs \<Longrightarrow> rx_search ci items (x # xs)"
  by simp

lemma rx_search_in_some_line:
  assumes nl: "newline_free ci items"
  shows "rx_search ci items s \<Longrightarrow> \<exists>l\<in>set (split_lines s). rx_search ci items l"
proof (induction s)
  case Nil
  then show ?case by simp
next
  case (Cons c cs)
  obtain l ls where sl: "split_lines cs = l # ls"
    and shape: "cs = l \<or> (\<exists>rest. cs = l @ 10 # rest)"
    using split_lines_first [of cs] by blast
  show ?case
  proof (cases "c = 10")
    case True
    then have lines: "split_lines (c # cs) = [] # split_lines cs" by simp
    show ?thesis
    proof (cases "rx_match ci False items (c # cs)")
      case True
      with \<open>c = 10\<close> have "rx_match ci False items ([] @ 10 # cs)" by simp
      with nl have "rx_match ci False items []"
        by (simp only: rx_match_stops_at_newline)
      then have "rx_search ci items []" by simp
      with lines show ?thesis by simp
    next
      case False
      with Cons.prems have "rx_search ci items cs" by simp
      with Cons.IH lines show ?thesis by auto
    qed
  next
    case False
    with sl have lines: "split_lines (c # cs) = (c # l) # ls" by simp
    show ?thesis
    proof (cases "rx_match ci False items (c # cs)")
      case True
      have "rx_match ci False items (c # l)"
      proof (cases "cs = l")
        case True
        with \<open>rx_match ci False items (c # cs)\<close> show ?thesis by simp
      next
        case False
        with shape obtain rest where "cs = l @ 10 # rest" by blast
        with True have "rx_match ci False items ((c # l) @ 10 # rest)" by simp
        with nl show ?thesis by (simp only: rx_match_stops_at_newline)
      qed
      then have "rx_search ci items (c # l)" by simp
      with lines show ?thesis by simp
    next
      case False
      with Cons.prems have "rx_search ci items cs" by simp
      with Cons.IH sl obtain k where k: "k \<in> set (l # ls)" "rx_search ci items k" by auto
      show ?thesis
      proof (cases "k = l")
        case True
        with k have "rx_search ci items (c # l)" by simp
        with lines show ?thesis by simp
      next
        case False
        with k lines show ?thesis by auto
      qed
    qed
  qed
qed

lemma blocker_patterns_newline_free:
  "list_all (\<lambda>p. \<not> anchored p \<and> newline_free (ignoreCase p) (rx_items p)) BLOCKER_PATTERNS"
  by (simp add: BLOCKER_PATTERNS_def newline_free_def chars_def item_atom_def
        canonicalize_def line_terminator_def)

lemma detectBlocker_in_some_line:
  assumes "detectBlocker s"
  shows "\<exists>l\<in>set (split_lines s). detectBlocker l"
proof -
  from assms obtain p where p: "p \<in> set BLOCKER_PATTERNS" "rx_test p s"
    by (auto simp: detectBlocker_def list_ex_iff)
  with blocker_patterns_newline_free
  have na: "\<not> anchored p" and nl: "newline_free (ignoreCase p) (rx_items p)"
    by (auto simp: list_all_iff)
  from p na have "rx_search (ignoreCase p) (rx_items p) s" by (simp add: rx_test_def)
  with nl obtain l where l: "l \<in> set (split_lines s)" "rx_search (ignoreCase p) (rx_items p) l"
    using rx_search_in_some_line by blast
  with na have "rx_test p l" by (simp add: rx_test_def)
  with p have "detectBlocker l" by (auto simp: detectBlocker_def list_ex_iff)
  with l show ?thesis by blast
qed

lemma extractBlockerReason_line:
  assumes "detectBlocker s"
  shows "\<exists>line. find detectBlocker (split_lines s) = Some line
           \<and> extractBlockerReason s = take 200 (trim line)"
proof -
  from detectBlocker_in_some_line [OF assms]
  have "find detectBlocker (split_lines s) \<noteq> None"
    by (auto simp: find_None_iff)
  then obtain line where "find detectBlocker (split_lines s) = Some line" by blast
  then show ?thesis by (simp add: extractBlockerReason_def)
qed

section \<open>Properties of the phase orchestrator\<close>

lemma foldl_on_next_detected:
  "blockerDetected s \<Longrightarrow>
     foldl on_next s evs = s\<lparr>taskOutput := taskOutput s @ chunks_text evs\<rparr>"
proof (induction evs arbitrary: s)
  case Nil
  show ?case by (simp add: chunks_text_def)
next
  case (Cons e evs)
  from Cons.prems have step: "on_next s e = s\<lparr>taskOutput := taskOutput s @ data e @ [10]\<rparr>"
    by (simp add: on_next_def Let_def)
  with Cons.prems have "blockerDetected (on_next s e)" by simp
  from Cons.IH [OF this] step show ?case by (simp add: chunks_text_def)
qed

lemma foldl_on_next:
  "\<not> blockerDetected s \<Longrightarrow>
     foldl on_next s evs =
       (case find (\<lambda>e. detectBlocker (data e)) evs of
          None \<Rightarrow> s\<lparr>taskOutput := taskOutput s @ chunks_text evs\<rparr>
        | Some e \<Rightarrow> s\<lparr>taskOutput := taskOutput s @ chunks_text evs,
                       blockerDetected := True,
                       sub_blockerReason := Some (extractBlockerReason (data e))\<rparr>)"
proof (induction evs arbitrary: s)
  case Nil
  show ?case by (simp add: chunks_text_def)
next
  case (Cons e evs)
  show ?case
  proof (cases "detectBlocker (data e)")
    case True
    with Cons.prems have step: "on_next s e =
        s\<lparr>taskOutput := taskOutput s @ data e @ [10], blockerDetected := True,
          sub_blockerReason := Some (extractBlockerReason (data e))\<rparr>"
      by (simp add: on_next_def Let_def)
    then have "blockerDetected (on_next s e)" by simp
    from foldl_on_next_detected [OF this, of evs] step True
    show ?thesis by (simp add: chunks_text_def)
  next
    case False
    with Cons.prems have step: "on_next s e = s\<lparr>taskOutput := taskOutput s @ data e @ [10]\<rparr>"
      by (simp add: on_next_def Let_def)
    with Cons.prems have "\<not> blockerDetected (on_next s e)" by simp
    from Cons.IH [OF this] step False show ?thesis
      by (simp add: chunks_text_def split: option.splits)
  qed
qed

lemma executeTask_blocked:
  assumes "run r = Streams str" and "ending str = Completes"
      and "find (\<lambda>e. detectBlocker (data e)) (events str) = Some e"
  shows "executeTask t r =
           Returns \<lparr>taskId = task_id t, taskTitle = title t, status = R_blocked,
                    blockerReason = Some (extractBlockerReason (data e)),
                    duration = run_duration r, result_output = chunks_text (events str)\<rparr>"
  using assms
  by (simp add: executeTask_def Let_def foldl_on_next subscription_init_def on_complete_def)

lemma executeTask_completed:
  assumes "run r = Streams str" and "ending str = Completes"
      and "find (\<lambda>e. detectBlocker (data e)) (events str) = None"
  shows "executeTask t r =
           Returns \<lparr>taskId = task_id t, taskTitle = title t, status = R_completed,
                    blockerReason = None,
                    duration = run_duration r, result_output = chunks_text (events str)\<rparr>"
  using assms
  by (simp add: executeTask_def Let_def foldl_on_next subscription_init_def on_complete_def)

lemma executeTask_failed:
  assumes "run r = Streams str" and "ending str = Errors message"
  shows "\<exists>res. executeTask t r = Returns res \<and> status res = R_failed
           \<and> taskId res = task_id t \<and> taskTitle res = title t \<and> blockerReason res = None"
  using assms by (simp add: executeTask_def Let_def on_error_def)

text \<open>
  Claim C2, as the program has it. Take a task whose stream completes and has a chunk that
  matches a blocker pattern, and let \<open>e\<close> be the first such chunk. Then that chunk has a
  first line that matches a pattern; the result of the task has status \<open>blocked\<close> and
  its reason is that line, trimmed and cut to 200 code units, whatever the later chunks
  are; and the loop of the phase returns right after that task, the tasks \<open>ts\<close> that
  follow it being neither executed nor recorded.
\<close>

theorem blocker_first_match_wins:
  assumes "run r = Streams str" and "ending str = Completes"
      and "find (\<lambda>e. detectBlocker (data e)) (events str) = Some e"
      and "\<not> shouldStop orch" and "rs i = r"
  shows "\<exists>line res.
           find detectBlocker (split_lines (data e)) = Some line
         \<and> executeTask t r = Returns res
         \<and> status res = R_blocked
         \<and> blockerReason res = Some (take 200 (trim line))
         \<and> length (take 200 (trim line)) \<le> 200
         \<and> task_loop rs i orch acc (t # ts) =
             Returns (if stop_requested r then stopAfterCurrentTask orch else orch,
                      acc @ [res])"
proof -
  from assms(3) have "detectBlocker (data e)"
    by (auto simp: find_Some_iff)
  then obtain line where line: "find detectBlocker (split_lines (data e)) = Some line"
    "extractBlockerReason (data e) = take 200 (trim line)"
    using extractBlockerReason_line by blast
  define res where "res = \<lparr>taskId = task_id t, taskTitle = title t, status = R_blocked,
                    blockerReason = Some (extractBlockerReason (data e)),
                    duration = run_duration r, result_output = chunks_text (events str)\<rparr>"
  from assms(1-3) have ex: "executeTask t r = Returns res"
    unfolding res_def by (rule executeTask_blocked)
  have st: "status res = R_blocked" by (simp add: res_def)
  have br: "blockerReason res = Some (take 200 (trim line))"
    by (simp add: res_def line(2))
  from assms(4,5) ex st
  have "task_loop rs i orch acc (t # ts) =
             Returns (if stop_requested r then stopAfterCurrentTask orch else orch,
                      acc @ [res])"
    by (simp add: Let_def)
  with line(1) ex st br show ?thesis by auto
qed

lemma task_loop_skips:
  "shouldStop orch \<Longrightarrow> task_loop rs i orch acc ts = Returns (orch, acc @ map skipped ts)"
  by (induction ts arbitrary: i acc) auto




lemma executeTask_unblocked:
  assumes "finishes_unblocked r"
  shows "\<exists>res. executeTask t r = Returns res
           \<and> (status res = R_completed \<or> status res = R_failed)
           \<and> taskId res = task_id t"
proof (cases "run r")
  case (Agent_throws m)
  with assms show ?thesis by (simp add: finishes_unblocked_def)
next
  case (Streams str)
  show ?thesis
  proof (cases "ending str")
    case Completes
    with assms Streams have "find (\<lambda>e. detectBlocker (data e)) (events str) = None"
      by (simp add: finishes_unblocked_def)
    from executeTask_completed [OF Streams Completes this, of t] show ?thesis by simp
  next
    case (Errors m)
    from executeTask_failed [OF Streams Errors, of t] show ?thesis by auto
  next
    case Never_ends
    with assms Streams show ?thesis by (simp add: finishes_unblocked_def)
  qed
qed

lemma task_loop_stop_during:
  assumes "\<not> shouldStop orch" and "k < length ts"
      and "\<forall>j\<le>k. finishes_unblocked (rs (i + j))"
      and "\<forall>j<k. \<not> stop_requested (rs (i + j))"
      and "stop_requested (rs (i + k))"
  shows "\<exists>ex. task_loop rs i orch acc ts =
                 Returns (stopAfterCurrentTask orch, acc @ ex @ map skipped (drop (Suc k) ts))
             \<and> length ex = Suc k
             \<and> (\<forall>r\<in>set ex. status r = R_completed \<or> status r = R_failed)
             \<and> map taskId ex = map task_id (take (Suc k) ts)"
  using assms
proof (induction ts arbitrary: i k acc)
  case Nil
  then show ?case by simp
next
  case (Cons t ts)
  from Cons.prems(3) have "finishes_unblocked (rs i)" by (metis add.right_neutral le0)
  then obtain res where res: "executeTask t (rs i) = Returns res"
    "status res = R_completed \<or> status res = R_failed" "taskId res = task_id t"
    using executeTask_unblocked by blast
  then have nb: "status res \<noteq> R_blocked" by auto
  show ?case
  proof (cases k)
    case 0
    with Cons.prems have stop: "stop_requested (rs i)" by simp
    have "shouldStop (stopAfterCurrentTask orch)" by (simp add: stopAfterCurrentTask_def)
    then have "task_loop rs (Suc i) (stopAfterCurrentTask orch) (acc @ [res]) ts
          = Returns (stopAfterCurrentTask orch, (acc @ [res]) @ map skipped ts)"
      by (rule task_loop_skips)
    with Cons.prems(1) res nb stop 0
    have "task_loop rs i orch acc (t # ts) =
            Returns (stopAfterCurrentTask orch, acc @ [res] @ map skipped (drop (Suc k) (t # ts)))"
      by (simp add: Let_def)
    moreover have "length [res] = Suc k" using 0 by simp
    moreover have "\<forall>r\<in>set [res]. status r = R_completed \<or> status r = R_failed"
      using res(2) by simp
    moreover have "map taskId [res] = map task_id (take (Suc k) (t # ts))"
      using res(3) 0 by simp
    ultimately show ?thesis by blast
  next
    case (Suc k')
    with Cons.prems have nostop: "\<not> stop_requested (rs i)"
      by (metis add.right_neutral zero_less_Suc)
    from Suc Cons.prems have a: "k' < length ts" by simp
    from Suc Cons.prems(3) have b: "\<forall>j\<le>k'. finishes_unblocked (rs (Suc i + j))"
      by (metis Suc_le_mono add_Suc_shift)
    from Suc Cons.prems(4) have c: "\<forall>j<k'. \<not> stop_requested (rs (Suc i + j))"
      by (metis Suc_less_eq add_Suc_shift)
    from Suc Cons.prems(5) have d: "stop_requested (rs (Suc i + k'))" by simp
    from Cons.IH [OF Cons.prems(1) a b c d, of "acc @ [res]"]
    obtain ex where ex: "task_loop rs (Suc i) orch (acc @ [res]) ts =
                 Returns (stopAfterCurrentTask orch,
                          (acc @ [res]) @ ex @ map skipped (drop (Suc k') ts))"
      "length ex = Suc k'"
      "\<forall>r\<in>set ex. status r = R_completed \<or> status r = R_failed"
      "map taskId ex = map task_id (take (Suc k') ts)"
      by blast
    from Cons.prems(1) res nb nostop ex(1) Suc
    have "task_loop rs i orch acc (t # ts) =
            Returns (stopAfterCurrentTask orch,
                     acc @ (res # ex) @ map skipped (drop (Suc k) (t # ts)))"
      by (simp add: Let_def)
    moreover have "length (res # ex) = Suc k" using ex(2) Suc by simp
    moreover have "\<forall>r\<in>set (res # ex). status r = R_completed \<or> status r = R_failed"
      using res(2) ex(3) by simp
    moreover have "map taskId (res # ex) = map task_id (take (Suc k) (t # ts))"
      using res(3) ex(4) Suc by simp
    ultimately show ?thesis by blast
  qed
qed

lemma count_status_skipped:
  "count_status R_skipped (map skipped ts) = length ts"
  by (induction ts) (auto simp: count_status_def skipped_def)

lemma count_status_none:
  "\<forall>r\<in>set ex. status r \<noteq> st \<Longrightarrow> count_status st ex = 0"
  by (induction ex) (auto simp: count_status_def)

lemma count_status_append:
  "count_status st (xs @ ys) = count_status st xs + count_status st ys"
  by (simp add: count_status_def)

text \<open>
  Claim C4, as the program has it. In a phase of N pending tasks, let
  \<open>stopAfterCurrentTask\<close> be called for the first time while task \<open>k\<close> runs, and let
  the tasks up to \<open>k\<close> come to an end without a blocker. Then \<open>executePhase\<close> returns
  N results in the order of the tasks: the first \<open>k\<close> are completed or failed, the
  other N - k are skipped with duration zero, and \<open>stoppedByUser\<close> is set.
\<close>

theorem graceful_stop_skips_remaining:
  assumes idle: "\<not> isRunning orch"
      and sync: "syncContext w = None"
      and fetch: "fetchTasksByPhase w = Inr allTasks"
      and k: "1 \<le> k" "k \<le> length (filter is_pending allTasks)"
      and fin: "\<forall>j<k. finishes_unblocked (runs w j)"
      and before: "\<forall>j<k - 1. \<not> stop_requested (runs w j)"
      and stop: "stop_requested (runs w (k - 1))"
      and nostop: "\<not> stop_before_loop w"
  shows "\<exists>orch' pr. executePhase orch pid w = (orch', Returns pr)
           \<and> length (results pr) = length (filter is_pending allTasks)
           \<and> map taskId (results pr) = map task_id (filter is_pending allTasks)
           \<and> (\<forall>r\<in>set (take k (results pr)). status r = R_completed \<or> status r = R_failed)
           \<and> drop k (results pr) = map skipped (drop k (filter is_pending allTasks))
           \<and> (\<forall>r\<in>set (drop k (results pr)). status r = R_skipped \<and> duration r = 0)
           \<and> tasksSkipped pr = length (filter is_pending allTasks) - k
           \<and> stoppedByUser pr"
proof -
  define ts where "ts = filter is_pending allTasks"
  define orch1 where "orch1 = orch\<lparr>isRunning := True, shouldStop := False\<rparr>"
  from k obtain k' where k': "k = Suc k'" by (cases k) auto
  have ns: "\<not> shouldStop orch1" by (simp add: orch1_def)
  from k k' have a: "k' < length ts" by (simp add: ts_def)
  from fin k' have b: "\<forall>j\<le>k'. finishes_unblocked (runs w (0 + j))" by auto
  from before k' have c: "\<forall>j<k'. \<not> stop_requested (runs w (0 + j))" by simp
  from stop k' have d: "stop_requested (runs w (0 + k'))" by simp
  from task_loop_stop_during [OF ns a b c d, of "[]"]
  obtain ex where ex: "task_loop (runs w) 0 orch1 [] ts =
                 Returns (stopAfterCurrentTask orch1, ex @ map skipped (drop k ts))"
      "length ex = k"
      "\<forall>r\<in>set ex. status r = R_completed \<or> status r = R_failed"
      "map taskId ex = map task_id (take k ts)"
    using k' by auto
  define res where "res = ex @ map skipped (drop k ts)"
  from a have ne: "length ts \<noteq> 0" by auto
  have pend: "filter is_pending allTasks = ts"
    by (simp add: ts_def)
  have run: "executePhase orch pid w =
          (finally_reset (stopAfterCurrentTask orch1),
           Returns (phase_stats pid (stopAfterCurrentTask orch1) res (elapsed w)))"
    using idle sync fetch pend ne ex(1) nostop
    by (simp add: executePhase_def Let_def orch1_def [symmetric] res_def)
  have len: "length res = length ts"
    using ex(2) k by (simp add: res_def ts_def)
  have ids: "map taskId res = map task_id ts"
  proof -
    have "taskId \<circ> skipped = task_id"
      by (rule ext) (simp add: skipped_def)
    then have "map taskId (map skipped (drop k ts)) = map task_id (drop k ts)"
      by simp
    with ex(4) have "map taskId res = map task_id (take k ts) @ map task_id (drop k ts)"
      by (simp add: res_def)
    also have "\<dots> = map task_id (take k ts @ drop k ts)"
      by (simp only: map_append)
    finally show ?thesis by simp
  qed
  have tk: "take k res = ex" using ex(2) by (simp add: res_def)
  have dr: "drop k res = map skipped (drop k ts)" using ex(2) by (simp add: res_def)
  have sk: "\<forall>r\<in>set (drop k res). status r = R_skipped \<and> duration r = 0"
    unfolding dr by (auto simp: skipped_def)
  have "\<forall>r\<in>set ex. status r \<noteq> R_skipped" using ex(3) by auto
  then have "count_status R_skipped ex = 0" by (rule count_status_none)
  then have cnt: "count_status R_skipped res = length ts - k"
    by (simp add: res_def count_status_append count_status_skipped)
  have sbu: "shouldStop (stopAfterCurrentTask orch1)" by (simp add: stopAfterCurrentTask_def)
  show ?thesis
    unfolding run ts_def [symmetric]
    using len ids tk dr sk cnt sbu ex(3)
    by (simp add: phase_stats_def)
qed

section \<open>Properties of the execution registry\<close>






lemma no_terminal_snoc_ends:
  "no_terminal evs \<Longrightarrow> terminal e \<Longrightarrow> ends_with_one_terminal (evs @ [e])"
  by (simp add: no_terminal_def ends_with_one_terminal_def)








lemma quiet_append [simp]: "quiet (xs @ ys) = (quiet xs \<and> quiet ys)"
  by (simp add: quiet_def)

lemma quiet_Nil [simp]: "quiet []"
  by (simp add: quiet_def)

lemma quiet_Cons [simp]: "quiet (a # acts) = (\<not> terminal_action a \<and> quiet acts)"
  by (simp add: quiet_def)

lemma on_session_event_quiet: "quiet (fst (on_session_event c e))"
  by (cases e) (auto simp: terminal_action_def terminal_def)

lemma on_session_event_cancelled: "snd (on_session_event c e) = (c \<or> is_stop e)"
  by (cases e) (auto simp: is_stop_def)

lemma on_session_events_quiet: "quiet (fst (on_session_events c es))"
proof (induction es arbitrary: c)
  case Nil
  show ?case by simp
next
  case (Cons e es)
  obtain a1 c1 where e: "on_session_event c e = (a1, c1)" by (cases "on_session_event c e")
  obtain a2 c2 where es: "on_session_events c1 es = (a2, c2)" by (cases "on_session_events c1 es")
  from on_session_event_quiet [of c e] e have "quiet a1" by simp
  moreover from Cons.IH [of c1] es have "quiet a2" by simp
  ultimately show ?case using e es by simp
qed

lemma on_session_events_cancelled:
  "snd (on_session_events c es) = (c \<or> list_ex is_stop es)"
proof (induction es arbitrary: c)
  case Nil
  show ?case by simp
next
  case (Cons e es)
  obtain a1 c1 where e: "on_session_event c e = (a1, c1)" by (cases "on_session_event c e")
  obtain a2 c2 where es: "on_session_events c1 es = (a2, c2)" by (cases "on_session_events c1 es")
  from on_session_event_cancelled [of c e] e have "c1 = (c \<or> is_stop e)" by simp
  moreover from Cons.IH [of c1] es have "c2 = (c1 \<or> list_ex is_stop es)" by simp
  ultimately show ?case using e es by auto
qed

lemma catch_block_closing: "closing_actions (catch_block c e)"
  by (simp add: catch_block_def closing_actions_def terminal_action_def terminal_def)

lemma catch_block_empty: "(catch_block c e = []) = c"
  by (simp add: catch_block_def)

lemma after_createSession_shape:
  "\<exists>pre fin. after_createSession c task w = pre @ fin \<and> quiet pre \<and> closing_actions fin
     \<and> ((fin = []) = (c \<or> createSession w = Resolves \<and> list_ex is_stop (session_events w)))"
proof (cases "createSession w")
  case (Rejects e)
  then have "after_createSession c task w = [] @ catch_block c e"
    by (simp add: after_createSession_def)
  moreover have "quiet []" by simp
  moreover have "(catch_block c e = [])
      = (c \<or> createSession w = Resolves \<and> list_ex is_stop (session_events w))"
    using Rejects by (simp add: catch_block_empty)
  ultimately show ?thesis
    using catch_block_closing by blast
next
  case Resolves
  obtain acts c' where ev: "on_session_events c (session_events w) = (acts, c')"
    by (cases "on_session_events c (session_events w)")
  from on_session_events_quiet [of c "session_events w"] ev have q: "quiet acts" by simp
  from on_session_events_cancelled [of c "session_events w"] ev
  have c': "c' = (c \<or> list_ex is_stop (session_events w))" by simp
  define pre where
    "pre = On_output \<lparr>otype = Status, data = lit ''Starting task: '' @ prompt_title task\<rparr> # acts"
  define fin where
    "fin = (case sendAndWait w of
              Rejects e \<Rightarrow> catch_block c' e
            | Resolves \<Rightarrow>
                if c' then []
                else [On_output \<lparr>otype = Complete, data = lit ''Task completed successfully''\<rparr>])"
  have eq: "after_createSession c task w = pre @ fin"
    using Resolves ev by (simp add: after_createSession_def pre_def fin_def)
  have qp: "quiet pre" using q by (simp add: pre_def terminal_action_def terminal_def)
  have cf: "closing_actions fin"
  proof (cases "sendAndWait w")
    case (Rejects e)
    then show ?thesis by (simp add: fin_def catch_block_closing)
  next
    case Resolves
    then show ?thesis
      by (simp add: fin_def closing_actions_def terminal_action_def terminal_def)
  qed
  have "(fin = []) = c'"
    by (cases "sendAndWait w") (simp_all add: fin_def catch_block_empty)
  then have ne: "(fin = [])
      = (c \<or> createSession w = Resolves \<and> list_ex is_stop (session_events w))"
    using c' Resolves by simp
  from eq qp cf ne show ?thesis by blast
qed

lemma executeSdk_async_shape:
  "\<exists>pre fin. executeSdk_async task w = pre @ fin \<and> quiet pre \<and> closing_actions fin
     \<and> ((fin = []) = session_cancelled w)"
proof -
  define stop where "stop = (case stop_during_setup w of None \<Rightarrow> [] | Some r \<Rightarrow> [Cancel r])"
  define c where "c = (stop_during_setup w \<noteq> None)"
  have qs: "quiet stop"
    by (simp add: stop_def terminal_action_def split: option.splits)
  obtain pre fin where sh: "after_createSession c task w = pre @ fin" "quiet pre"
      "closing_actions fin"
      "(fin = []) = (c \<or> createSession w = Resolves \<and> list_ex is_stop (session_events w))"
    using after_createSession_shape by blast
  show ?thesis
  proof (cases "client_started w")
    case True
    then have "executeSdk_async task w = (stop @ pre) @ fin"
      using sh(1) by (simp add: executeSdk_async_def Let_def stop_def c_def)
    moreover have "quiet (stop @ pre)" using qs sh(2) by simp
    moreover have "(fin = []) = session_cancelled w"
      using sh(4) True by (auto simp: session_cancelled_def c_def split: option.splits)
    ultimately show ?thesis using sh(3) by blast
  next
    case False
    show ?thesis
    proof (cases "startClient w")
      case (Rejects e)
      with False have "executeSdk_async task w = stop @ catch_block c e"
        by (simp add: executeSdk_async_def Let_def stop_def c_def)
      moreover have "(catch_block c e = []) = session_cancelled w"
        using False Rejects
        by (auto simp: catch_block_empty session_cancelled_def c_def split: option.splits)
      ultimately show ?thesis using qs catch_block_closing by blast
    next
      case Resolves
      with False have "executeSdk_async task w
          = (stop @ On_output (creating_session task) # pre) @ fin"
        using sh(1) by (simp add: executeSdk_async_def Let_def stop_def c_def)
      moreover have "quiet (stop @ On_output (creating_session task) # pre)"
        using qs sh(2) by (simp add: terminal_action_def terminal_def creating_session_def)
      moreover have "(fin = []) = session_cancelled w"
        using sh(4) False Resolves
        by (auto simp: session_cancelled_def c_def split: option.splits)
      ultimately show ?thesis using sh(3) by blast
    qed
  qed
qed

lemma on_sdk_action_quiet:
  "open_quiet (subj ex) \<Longrightarrow> \<not> terminal_action a \<Longrightarrow> open_quiet (subj (on_sdk_action pid ex a))"
  by (cases a)
     (auto simp: open_quiet_def subject_next_def no_terminal_def terminal_action_def terminal_def
             tool_output_type_def
           split: sum.splits tool_event_type.splits)

lemma foldl_on_sdk_action_quiet:
  "open_quiet (subj ex) \<Longrightarrow> quiet acts \<Longrightarrow> open_quiet (subj (foldl (on_sdk_action pid) ex acts))"
  by (induction acts arbitrary: ex) (auto intro: on_sdk_action_quiet)

lemma foldl_on_sdk_action_closing:
  assumes "open_quiet (subj ex)" and "closing_actions fin"
  shows "closed (subj (foldl (on_sdk_action pid) ex fin)) = None
         \<and> (if fin = [] then no_terminal (emitted (subj (foldl (on_sdk_action pid) ex fin)))
            else ends_with_one_terminal (emitted (subj (foldl (on_sdk_action pid) ex fin))))"
proof (cases fin)
  case Nil
  with assms show ?thesis by (simp add: open_quiet_def)
next
  case (Cons a others)
  with assms(2) have others: "others = []" and ta: "terminal_action a"
    by (simp_all add: closing_actions_def)
  from ta obtain out where out: "a = On_output out" "terminal out"
    by (cases a) (auto simp: terminal_action_def)
  with assms(1) Cons others show ?thesis
    by (simp add: open_quiet_def subject_next_def no_terminal_snoc_ends)
qed

lemma on_done_subject:
  "closed (subj ex) = None \<Longrightarrow>
     emitted (subj (on_done pid ex)) = emitted (subj ex)
     \<and> closed (subj (on_done pid ex)) = Some N_complete"
  by (simp add: on_done_def subject_complete_def)

lemma session_sync_state:
  assumes "adapters m agentId = Some a" and "has_executeSdk a"
  shows "\<exists>ex. executeTask_sync m agentId task processId w = Inr ex
           \<and> closed (subj ex) = None
           \<and> emitted (subj ex)
               = [if client_started (sdk w) then creating_session task else connecting,
                  started a task]"
  using assms
  by (simp add: executeTask_sync_def Let_def executeSdk_sync_def subject_new_def
        subject_next_def creating_session_def connecting_def)

lemma status_outputs_quiet:
  "\<not> terminal (creating_session task)" "\<not> terminal connecting" "\<not> terminal (started a task)"
  by (simp_all add: terminal_def creating_session_def connecting_def started_def)

lemma on_sdk_action_grows:
  "\<exists>more. emitted (subj (on_sdk_action pid ex a)) = emitted (subj ex) @ more"
  by (cases a) (auto simp: subject_next_def split: option.splits sum.splits)

lemma foldl_on_sdk_action_grows:
  "\<exists>more. emitted (subj (foldl (on_sdk_action pid) ex acts)) = emitted (subj ex) @ more"
proof (induction acts arbitrary: ex)
  case Nil
  show ?case by simp
next
  case (Cons a acts)
  obtain m1 where m1: "emitted (subj (on_sdk_action pid ex a)) = emitted (subj ex) @ m1"
    using on_sdk_action_grows by blast
  obtain m2 where "emitted (subj (foldl (on_sdk_action pid) (on_sdk_action pid ex a) acts))
      = emitted (subj (on_sdk_action pid ex a)) @ m2"
    using Cons.IH by blast
  with m1 show ?case by simp
qed

lemma on_done_emitted: "emitted (subj (on_done pid ex)) = emitted (subj ex)"
  by (simp add: on_done_def subject_complete_def split: option.splits)

text \<open>
  A session execution: the state when \<open>executeTask\<close> returns and the final state. The
  channel is open and without terminal event at the return; at the end it is completed,
  and it carries one terminal event, the last one, unless the execution was cancelled,
  in which case it carries none.
\<close>

lemma session_execution:
  assumes a: "adapters m agentId = Some a" and sdk: "has_executeSdk a"
  shows "\<exists>ex0 ex. executeTask_sync m agentId task processId w = Inr ex0
           \<and> executeTask_async m agentId task processId w ex0 = ex
           \<and> no_terminal (emitted (subj ex0))
           \<and> (\<exists>rest. emitted (subj ex) = emitted (subj ex0) @ rest)
           \<and> closed (subj ex) = Some N_complete
           \<and> (if session_cancelled (sdk w) then no_terminal (emitted (subj ex))
              else ends_with_one_terminal (emitted (subj ex)))"
proof -
  define pid where "pid = finalProcessId agentId task processId (now w)"
  obtain ex0 where ex0: "executeTask_sync m agentId task processId w = Inr ex0"
      "closed (subj ex0) = None"
      "emitted (subj ex0)
         = [if client_started (sdk w) then creating_session task else connecting,
            started a task]"
    using session_sync_state [OF a sdk] by blast
  have oq0: "open_quiet (subj ex0)"
    using ex0(2,3) status_outputs_quiet by (simp add: open_quiet_def no_terminal_def)
  obtain pre fin where sh: "executeSdk_async task (sdk w) = pre @ fin" "quiet pre"
      "closing_actions fin" "(fin = []) = session_cancelled (sdk w)"
    using executeSdk_async_shape by blast
  define ex1 where "ex1 = foldl (on_sdk_action pid) ex0 pre"
  define ex2 where "ex2 = foldl (on_sdk_action pid) ex1 fin"
  have oq1: "open_quiet (subj ex1)"
    unfolding ex1_def using oq0 sh(2) by (rule foldl_on_sdk_action_quiet)
  from foldl_on_sdk_action_closing [OF oq1 sh(3), of pid]
  have c2: "closed (subj ex2) = None"
    and e2: "if fin = [] then no_terminal (emitted (subj ex2))
             else ends_with_one_terminal (emitted (subj ex2))"
    unfolding ex2_def by blast+
  have ex2: "ex2 = foldl (on_sdk_action pid) ex0 (executeSdk_async task (sdk w))"
    using sh(1) by (simp add: ex1_def ex2_def)
  have fin: "executeTask_async m agentId task processId w ex0 = on_done pid ex2"
    using a sdk ex2 by (simp add: executeTask_async_def Let_def pid_def)
  from on_done_subject [OF c2, of pid]
  have d: "emitted (subj (on_done pid ex2)) = emitted (subj ex2)"
      "closed (subj (on_done pid ex2)) = Some N_complete"
    by simp_all
  obtain rest where rest: "emitted (subj ex2) = emitted (subj ex0) @ rest"
    unfolding ex2 using foldl_on_sdk_action_grows by blast
  have n0: "no_terminal (emitted (subj ex0))"
    using oq0 by (simp add: open_quiet_def)
  have o: "if session_cancelled (sdk w) then no_terminal (emitted (subj ex2))
           else ends_with_one_terminal (emitted (subj ex2))"
    using e2 sh(4) by auto
  have e': "emitted (subj (on_done pid ex2)) = emitted (subj ex0) @ rest"
    using d(1) rest by simp
  have o': "if session_cancelled (sdk w) then no_terminal (emitted (subj (on_done pid ex2)))
            else ends_with_one_terminal (emitted (subj (on_done pid ex2)))"
    using o d(1) by simp
  from ex0(1) fin n0 e' d(2) o' show ?thesis by blast
qed



lemma on_proc_event_grows:
  "\<exists>more. emitted (subj (on_proc_event pid ex e)) = emitted (subj ex) @ more"
  by (cases e)
     (auto simp: subject_next_def subject_complete_def subject_error_def
           split: option.splits sum.splits)

lemma foldl_on_proc_event_grows:
  "\<exists>more. emitted (subj (foldl (on_proc_event pid) ex evs)) = emitted (subj ex) @ more"
proof (induction evs arbitrary: ex)
  case Nil
  show ?case by simp
next
  case (Cons e evs)
  obtain m1 where m1: "emitted (subj (on_proc_event pid ex e)) = emitted (subj ex) @ m1"
    using on_proc_event_grows by blast
  obtain m2 where "emitted (subj (foldl (on_proc_event pid) (on_proc_event pid ex e) evs))
      = emitted (subj (on_proc_event pid ex e)) @ m2"
    using Cons.IH by blast
  with m1 show ?case by simp
qed








text \<open>
  Claim C7 on the session path. The adapter emits its first status line inside the call
  of \<open>executeSdk\<close>, before the registry emits the status line ``Started ... for task:
  ...'': in every session execution that line is the second event of the channel, after
  the adapter's ``Creating session ...'' (or ``Connecting ...'' when the client is not
  started yet).
\<close>

theorem session_heartbeat_follows_adapter_status:
  assumes "adapters m agentId = Some a" and "has_executeSdk a"
  shows "\<exists>ex rest. execution_of m agentId task processId w = Inr ex
           \<and> emitted (subj ex)
               = (if client_started (sdk w) then creating_session task else connecting)
                 # started a task # rest"
proof -
  define pid where "pid = finalProcessId agentId task processId (now w)"
  obtain ex0 where ex0: "executeTask_sync m agentId task processId w = Inr ex0"
      "emitted (subj ex0)
         = [if client_started (sdk w) then creating_session task else connecting,
            started a task]"
    using session_sync_state [OF assms] by blast
  have "execution_of m agentId task processId w
          = Inr (on_done pid (foldl (on_sdk_action pid) ex0 (executeSdk_async task (sdk w))))"
    using assms ex0(1)
    by (simp add: execution_of_def executeTask_async_def Let_def pid_def)
  moreover obtain more where
    "emitted (subj (foldl (on_sdk_action pid) ex0 (executeSdk_async task (sdk w))))
       = emitted (subj ex0) @ more"
    using foldl_on_sdk_action_grows by blast
  ultimately show ?thesis
    using ex0(2) by (simp add: on_done_emitted)
qed

lemma on_proc_event_data:
  assumes "closed (subj ex) = None" and "is_data e"
  shows "closed (subj (on_proc_event pid ex e)) = None
         \<and> mgr (on_proc_event pid ex e) = mgr ex
         \<and> (\<exists>out. emitted (subj (on_proc_event pid ex e)) = emitted (subj ex) @ [out])"
  using assms by (cases e) (auto simp: is_data_def subject_next_def)

lemma foldl_on_proc_event_data:
  assumes "closed (subj ex) = None" and "list_all is_data evs"
  shows "closed (subj (foldl (on_proc_event pid) ex evs)) = None
         \<and> mgr (foldl (on_proc_event pid) ex evs) = mgr ex
         \<and> (\<exists>more. emitted (subj (foldl (on_proc_event pid) ex evs)) = emitted (subj ex) @ more)"
  using assms
proof (induction evs arbitrary: ex)
  case Nil
  then show ?case by simp
next
  case (Cons e evs)
  from Cons.prems have d: "is_data e" and ds: "list_all is_data evs" by simp_all
  from on_proc_event_data [OF Cons.prems(1) d, of pid]
  obtain out where st: "closed (subj (on_proc_event pid ex e)) = None"
      "mgr (on_proc_event pid ex e) = mgr ex"
      "emitted (subj (on_proc_event pid ex e)) = emitted (subj ex) @ [out]"
    by blast
  from Cons.IH [OF st(1) ds]
  obtain more where
      "closed (subj (foldl (on_proc_event pid) (on_proc_event pid ex e) evs)) = None"
      "mgr (foldl (on_proc_event pid) (on_proc_event pid ex e) evs) = mgr (on_proc_event pid ex e)"
      "emitted (subj (foldl (on_proc_event pid) (on_proc_event pid ex e) evs))
         = emitted (subj (on_proc_event pid ex e)) @ more"
    by blast
  with st show ?case by simp
qed

lemma executeTask_stream_completes:
  assumes "ending str = Completes"
  shows "\<exists>res. executeTask t \<lparr>run = Streams str, run_duration = d, stop_requested = s\<rparr>
                 = Returns res
           \<and> (status res = R_completed \<or> status res = R_blocked)"
  using assms by (simp add: executeTask_def Let_def on_complete_def)

text \<open>
  Claim C6 on the one-shot path. When the process closes with an exit code other than 0
  after its data events, the registry records the status \<open>failed\<close>, yet the stream ends
  with an event of type \<open>complete\<close> and completes without error, and the orchestrator
  records the task as \<open>completed\<close> (or \<open>blocked\<close>), never as \<open>failed\<close>.
\<close>

theorem nonzero_exit_is_recorded_completed:
  assumes a: "adapters m agentId = Some a" and cli: "\<not> has_executeSdk a"
      and ok: "execute_throws w = None"
      and evs: "proc_events w = outs @ [Close code]" "list_all is_data outs"
      and code: "code \<noteq> Some 0"
  shows "\<exists>ex str res.
           execution_of m agentId task processId w = Inr ex
         \<and> getExecutionStatus (mgr ex) (finalProcessId agentId task processId (now w))
             = Some E_failed
         \<and> agent_run_of m agentId task processId w = Streams str
         \<and> ending str = Completes
         \<and> events str \<noteq> []
         \<and> last (events str)
             = \<lparr>otype = Complete,
                data = lit ''Process exited with code: '' @ exit_code_text code\<rparr>
         \<and> executeTask t \<lparr>run = Streams str, run_duration = d, stop_requested = s\<rparr>
             = Returns res
         \<and> (status res = R_completed \<or> status res = R_blocked)"
proof -
  define pid where "pid = finalProcessId agentId task processId (now w)"
  define ex0 where "ex0 = \<lparr>mgr = track pid True agentId task m,
                           subj = \<lparr>emitted = [started a task], closed = None\<rparr>\<rparr>"
  define fin where "fin = \<lparr>otype = Complete,
                data = lit ''Process exited with code: '' @ exit_code_text code\<rparr>"
  from a cli ok have sync: "executeTask_sync m agentId task processId w = Inr ex0"
    by (simp add: executeTask_sync_def Let_def subject_new_def subject_next_def
          ex0_def pid_def)
  define ex1 where "ex1 = foldl (on_proc_event pid) ex0 outs"
  define ex2 where "ex2 = on_proc_event pid ex1 (Close code)"
  have async: "executeTask_async m agentId task processId w ex0 = ex2"
    using a cli ok evs(1)
    by (simp add: executeTask_async_def Let_def pid_def ex1_def ex2_def)
  have op: "closed (subj ex0) = None" by (simp add: ex0_def)
  from foldl_on_proc_event_data [OF op evs(2), of pid]
  obtain more where ex1: "closed (subj ex1) = None" "mgr ex1 = mgr ex0"
      "emitted (subj ex1) = emitted (subj ex0) @ more"
    unfolding ex1_def by blast
  have em2: "emitted (subj ex2) = started a task # more @ [fin]"
    using ex1 by (simp add: ex2_def subject_next_def subject_complete_def ex0_def fin_def)
  have cl2: "closed (subj ex2) = Some N_complete"
    using ex1 by (simp add: ex2_def subject_next_def subject_complete_def)
  have st2: "getExecutionStatus (mgr ex2) pid = Some E_failed"
    using ex1(2) code
    by (simp add: ex2_def ex0_def set_status_def track_def getExecutionStatus_def)
  define str where "str = delivered (subj ex0) (subj ex2)"
  have run: "agent_run_of m agentId task processId w = Streams str"
    using sync async by (simp add: agent_run_of_def str_def)
  have ev: "events str = more @ [fin]"
    using em2 by (simp add: str_def delivered_def ex0_def)
  have en: "ending str = Completes"
    using cl2 by (simp add: str_def delivered_def)
  obtain res where res:
      "executeTask t \<lparr>run = Streams str, run_duration = d, stop_requested = s\<rparr> = Returns res"
      "status res = R_completed \<or> status res = R_blocked"
    using executeTask_stream_completes [OF en] by blast
  have "execution_of m agentId task processId w = Inr ex2"
    using sync async by (simp add: execution_of_def)
  with st2 run ev en res show ?thesis
    unfolding pid_def fin_def by auto
qed

lemma oneshot_heartbeat_first:
  assumes a: "adapters m agentId = Some a" and cli: "\<not> has_executeSdk a"
      and ok: "execute_throws w = None"
  shows "\<exists>ex rest. execution_of m agentId task processId w = Inr ex
           \<and> emitted (subj ex) = started a task # rest"
proof -
  define pid where "pid = finalProcessId agentId task processId (now w)"
  define ex0 where "ex0 = \<lparr>mgr = track pid True agentId task m,
                           subj = \<lparr>emitted = [started a task], closed = None\<rparr>\<rparr>"
  from a cli ok have sync: "executeTask_sync m agentId task processId w = Inr ex0"
    by (simp add: executeTask_sync_def Let_def subject_new_def subject_next_def
          ex0_def pid_def)
  have "execution_of m agentId task processId w
      = Inr (foldl (on_proc_event pid) ex0 (proc_events w))"
    using a cli ok sync
    by (simp add: execution_of_def executeTask_async_def Let_def pid_def)
  moreover obtain more where
    "emitted (subj (foldl (on_proc_event pid) ex0 (proc_events w))) = emitted (subj ex0) @ more"
    using foldl_on_proc_event_grows by blast
  ultimately show ?thesis by (simp add: ex0_def)
qed

section \<open>The scenarios, evaluated\<close>

subsection \<open>Blocker detection on the chunks of the scenarios\<close>

lemmas blocker_eval =
  detectBlocker_def BLOCKER_PATTERNS_def rx_test_def chars_def lit_def
  canonicalize_def line_terminator_def

lemma detect_ok: "\<not> detectBlocker (lit ''ok'')"
  by (simp add: blocker_eval)

lemma detect_more: "\<not> detectBlocker (lit ''more'')"
  by (simp add: blocker_eval)

lemma detect_api_key: "detectBlocker (lit ''BLOCKED: missing API key'')"
  by (simp add: blocker_eval)


lemma split_api_key:
  "split_lines (lit ''BLOCKED: missing API key'') = [lit ''BLOCKED: missing API key'']"
  by (simp add: lit_def)

lemma trim_api_key:
  "take 200 (trim (lit ''BLOCKED: missing API key'')) = lit ''BLOCKED: missing API key''"
  by (simp add: trim_def white_space_def lit_def)

lemma find_api_key_chunks:
  "find (\<lambda>e. detectBlocker (data e)) api_key_chunks = Some (chunk ''BLOCKED: missing API key'')"
  by (simp add: api_key_chunks_def chunk_def detect_ok detect_api_key)

lemma detect_boom: "\<not> detectBlocker (lit ''boom'')"
  by (simp add: blocker_eval)

lemma detect_exit_text: "\<not> detectBlocker (lit ''Process exited with code: 2'')"
  by (simp add: blocker_eval)

subsection \<open>Phases\<close>

theorem blocker_first_match_wins_witness:
  "find (\<lambda>e. detectBlocker (data e)) api_key_chunks = Some (chunk ''BLOCKED: missing API key'')
   \<and> map_option status (returned (executeTask task_A api_key_run)) = Some R_blocked
   \<and> map_option blockerReason (returned (executeTask task_A api_key_run))
       = Some (Some (lit ''BLOCKED: missing API key''))
   \<and> map_option snd (returned (task_loop (\<lambda>i. api_key_run) 0 idle [] [task_A, task_B]))
       = map_option (\<lambda>res. [res]) (returned (executeTask task_A api_key_run))"
proof -
  have h1: "run api_key_run = Streams \<lparr>events = api_key_chunks, ending = Completes\<rparr>"
    by (simp add: api_key_run_def)
  have h2: "ending \<lparr>events = api_key_chunks, ending = Completes\<rparr> = Completes" by simp
  have h3: "find (\<lambda>e. detectBlocker (data e))
              (events \<lparr>events = api_key_chunks, ending = Completes\<rparr>)
            = Some (chunk ''BLOCKED: missing API key'')"
    by (simp add: find_api_key_chunks)
  have h4: "\<not> shouldStop idle" by (simp add: idle_def)
  have h5: "(\<lambda>i::nat. api_key_run) 0 = api_key_run" by simp
  from blocker_first_match_wins
         [where rs = "\<lambda>i. api_key_run" and i = 0 and t = task_A and acc = "[]"
            and ts = "[task_B]", OF h1 h2 h3 h4 h5]
  obtain line res where r:
      "find detectBlocker (split_lines (data (chunk ''BLOCKED: missing API key''))) = Some line"
      "executeTask task_A api_key_run = Returns res"
      "status res = R_blocked"
      "blockerReason res = Some (take 200 (trim line))"
      "task_loop (\<lambda>i. api_key_run) 0 idle [] [task_A, task_B] =
         Returns (if stop_requested api_key_run then stopAfterCurrentTask idle else idle,
                  [] @ [res])"
    by blast
  from r(1) have "line = lit ''BLOCKED: missing API key''"
    by (simp add: chunk_def split_api_key detect_api_key)
  with r(4) have "blockerReason res = Some (lit ''BLOCKED: missing API key'')"
    by (simp add: trim_api_key)
  with r(2,3,5) find_api_key_chunks show ?thesis
    by (simp add: returned_def)
qed

text \<open>
  A task whose stream carries the blocker marker and then errors: its result is
  \<open>failed\<close>, not \<open>blocked\<close>, and the phase goes on to the next task.
\<close>

theorem blocker_then_stream_error_counterexample:
  "detectBlocker (data (chunk ''BLOCKED: missing API key''))
   \<and> chunk ''BLOCKED: missing API key'' \<in> set api_key_chunks
   \<and> map_option status (returned (executeTask task_A api_key_error_run)) = Some R_failed
   \<and> result_statuses (executePhase idle 7 phase_error_after_blocker)
       = Some [R_failed, R_completed]"
proof -
  have a: "executeTask task_A api_key_error_run
           = Returns (on_error task_A 7
                        (foldl on_next subscription_init api_key_chunks)
                        (Error_object (lit ''read EPIPE'')))"
    by (simp add: executeTask_def api_key_error_run_def Let_def)
  have b: "executeTask task_B clean_run =
           Returns \<lparr>taskId = task_id task_B, taskTitle = title task_B, status = R_completed,
                    blockerReason = None, duration = run_duration clean_run,
                    result_output = chunks_text [chunk ''ok'']\<rparr>"
    using executeTask_completed
            [where str = "\<lparr>events = [chunk ''ok''], ending = Completes\<rparr>"
               and r = clean_run and t = task_B]
    by (simp add: clean_run_def chunk_def detect_ok)
  have st: "status (on_error task_A 7
                        (foldl on_next subscription_init api_key_chunks)
                        (Error_object (lit ''read EPIPE'')))
            = R_failed"
    by (simp add: on_error_def)
  have p: "filter is_pending [task_A, task_B] = [task_A, task_B]"
    by (simp add: is_pending_def task_A_def task_B_def)
  have "result_statuses (executePhase idle 7 phase_error_after_blocker)
       = Some [R_failed, R_completed]"
    using a b st p
    by (simp add: result_statuses_def returned_def executePhase_def phase_error_after_blocker_def
          idle_def Let_def phase_stats_def api_key_error_run_def clean_run_def)
  with a st show ?thesis
    by (simp add: returned_def chunk_def detect_api_key api_key_chunks_def)
qed



lemma finishes_unblocked_clean_stop: "finishes_unblocked clean_stop_run"
  by (simp add: finishes_unblocked_def clean_stop_run_def clean_run_def chunk_def detect_ok)

theorem graceful_stop_skips_remaining_witness:
  "map_option (\<lambda>pr. drop 1 (results pr))
      (returned (snd (executePhase idle 7 phase_stop_during_clean)))
     = Some [skipped task_B, skipped task_C]
   \<and> map_option (\<lambda>pr. length (results pr))
        (returned (snd (executePhase idle 7 phase_stop_during_clean))) = Some 3
   \<and> map_option tasksSkipped (returned (snd (executePhase idle 7 phase_stop_during_clean)))
       = Some 2
   \<and> map_option stoppedByUser (returned (snd (executePhase idle 7 phase_stop_during_clean)))
       = Some True"
proof -
  have idle: "\<not> isRunning idle" by (simp add: idle_def)
  have sync: "syncContext phase_stop_during_clean = None"
    by (simp add: phase_stop_during_clean_def)
  have fetch: "fetchTasksByPhase phase_stop_during_clean = Inr [task_A, task_B, task_C]"
    by (simp add: phase_stop_during_clean_def)
  have pending: "filter is_pending [task_A, task_B, task_C] = [task_A, task_B, task_C]"
    by (simp add: is_pending_def task_A_def task_B_def task_C_def)
  have k1: "(1::nat) \<le> 1" by simp
  have k2: "1 \<le> length (filter is_pending [task_A, task_B, task_C])"
    unfolding pending by simp
  have fin: "\<forall>j<1. finishes_unblocked (runs phase_stop_during_clean j)"
    by (simp add: phase_stop_during_clean_def finishes_unblocked_clean_stop)
  have before: "\<forall>j<1 - 1. \<not> stop_requested (runs phase_stop_during_clean j)" by simp
  have stop: "stop_requested (runs phase_stop_during_clean (1 - 1))"
    by (simp add: phase_stop_during_clean_def clean_stop_run_def)
  have ns: "\<not> stop_before_loop phase_stop_during_clean"
    by (simp add: phase_stop_during_clean_def)
  from graceful_stop_skips_remaining [OF idle sync fetch k1 k2 fin before stop ns, of 7]
  obtain orch' pr where "executePhase idle 7 phase_stop_during_clean = (orch', Returns pr)"
      "length (results pr) = length (filter is_pending [task_A, task_B, task_C])"
      "drop 1 (results pr) = map skipped (drop 1 (filter is_pending [task_A, task_B, task_C]))"
      "tasksSkipped pr = length (filter is_pending [task_A, task_B, task_C]) - 1"
      "stoppedByUser pr"
    by auto
  then show ?thesis unfolding pending by (simp add: returned_def)
qed

text \<open>
  Two pending tasks, a graceful stop requested during the first, which reports a blocker:
  the phase halts there, and the second task is not recorded at all, skipped or otherwise.
\<close>

theorem stop_during_blocked_task_counterexample:
  "stop_requested (runs phase_stop_during_blocked 0)
   \<and> filter is_pending [task_A, task_B] = [task_A, task_B]
   \<and> result_statuses (executePhase idle 7 phase_stop_during_blocked) = Some [R_blocked]
   \<and> map_option tasksSkipped (returned (snd (executePhase idle 7 phase_stop_during_blocked)))
       = Some 0
   \<and> map_option stoppedByUser (returned (snd (executePhase idle 7 phase_stop_during_blocked)))
       = Some True"
proof -
  have a: "executeTask task_A api_key_stop_run =
           Returns \<lparr>taskId = task_id task_A, taskTitle = title task_A, status = R_blocked,
                    blockerReason = Some (extractBlockerReason
                                            (data (chunk ''BLOCKED: missing API key''))),
                    duration = run_duration api_key_stop_run,
                    result_output = chunks_text api_key_chunks\<rparr>"
    using executeTask_blocked
            [where str = "\<lparr>events = api_key_chunks, ending = Completes\<rparr>"
               and r = api_key_stop_run and t = task_A
               and e = "chunk ''BLOCKED: missing API key''"]
    by (simp add: api_key_stop_run_def api_key_run_def find_api_key_chunks)
  have p: "filter is_pending [task_A, task_B] = [task_A, task_B]"
    by (simp add: is_pending_def task_A_def task_B_def)
  have s: "stop_requested (runs phase_stop_during_blocked 0)"
    by (simp add: phase_stop_during_blocked_def api_key_stop_run_def)
  have run: "snd (executePhase idle 7 phase_stop_during_blocked)
       = Returns (phase_stats 7 (stopAfterCurrentTask \<lparr>isRunning = True, shouldStop = False\<rparr>)
           [\<lparr>taskId = task_id task_A, taskTitle = title task_A, status = R_blocked,
             blockerReason = Some (extractBlockerReason
                                     (data (chunk ''BLOCKED: missing API key''))),
             duration = run_duration api_key_stop_run,
             result_output = chunks_text api_key_chunks\<rparr>] 20)"
    using a p
    by (simp add: executePhase_def phase_stop_during_blocked_def idle_def Let_def
          api_key_stop_run_def)
  show ?thesis
    unfolding result_statuses_def run p
    using s
    by (simp add: returned_def phase_stats_def count_status_def stopAfterCurrentTask_def)
qed

subsection \<open>Stopping an execution\<close>

text \<open>
  Claim C5, as the program has it. For every tracked process id, whatever its status,
  \<open>stopExecution\<close> does not throw when the execution holds a process or its cancel
  callback resolves, and it sets the status to \<open>stopped\<close>; the status is left as it was
  only if it was \<open>stopped\<close> already.
\<close>

theorem stopExecution_sets_stopped:
  assumes "runningProcesses m pid = Some info"
      and "has_process info \<or> cancel_result = None"
  shows "\<exists>m'. stopExecution m pid cancel_result = Inr m'
           \<and> getExecutionStatus m' pid = Some E_stopped
           \<and> (getExecutionStatus m' pid = getExecutionStatus m pid
                \<longleftrightarrow> exec_status info = E_stopped)"
  using assms
  by (auto simp: stopExecution_def set_status_def getExecutionStatus_def split: option.splits)

lemma finished_p1:
  "runningProcesses finished (lit ''p1'')
     = Some \<lparr>has_process = True, rp_agentId = lit ''github-copilot'',
             rp_taskId = lit ''42'', exec_status = E_completed\<rparr>"
  by (simp add: finished_def)

theorem stopExecution_sets_stopped_witness:
  "getExecutionStatus finished (lit ''p1'') = Some E_completed
   \<and> status_after_stop (stopExecution finished (lit ''p1'') (Some (lit ''abort failed'')))
        (lit ''p1'') = Some E_stopped"
proof -
  have h: "has_process \<lparr>has_process = True, rp_agentId = lit ''github-copilot'',
             rp_taskId = lit ''42'', exec_status = E_completed\<rparr>
           \<or> Some (lit ''abort failed'') = None"
    by simp
  from stopExecution_sets_stopped [OF finished_p1 h]
  obtain m' where "stopExecution finished (lit ''p1'') (Some (lit ''abort failed'')) = Inr m'"
      "getExecutionStatus m' (lit ''p1'') = Some E_stopped"
    by blast
  then show ?thesis
    by (simp add: status_after_stop_def getExecutionStatus_def finished_p1)
qed

text \<open>A completed execution is \<open>stopped\<close> after \<open>stopExecution\<close>.\<close>

theorem stopExecution_overrides_terminal_status_counterexample:
  "getExecutionStatus finished (lit ''p1'') = Some E_completed
   \<and> status_after_stop (stopExecution finished (lit ''p1'') None) (lit ''p1'') = Some E_stopped"
  by (simp add: status_after_stop_def getExecutionStatus_def stopExecution_def set_status_def
        finished_p1)

subsection \<open>Executions\<close>

lemma registered_sdk:
  "adapters registered (lit ''github-copilot-sdk'')
     = Some \<lparr>adapter_name = lit ''GitHub Copilot (SDK)'', has_executeSdk = True\<rparr>"
  by (simp add: registered_def lit_def)

lemma registered_cli:
  "adapters registered (lit ''github-copilot'')
     = Some \<lparr>adapter_name = lit ''GitHub Copilot'', has_executeSdk = False\<rparr>"
  by (simp add: registered_def lit_def)


lemmas registry_eval =
  execution_of_def executeTask_sync_def executeTask_async_def Let_def
  executeSdk_sync_def executeSdk_async_def after_createSession_def catch_block_def
  subject_new_def subject_next_def subject_complete_def subject_error_def
  on_done_def session_world_def process_world_def
  stopExecution_def set_status_def track_def getExecutionStatus_def
  creating_session_def connecting_def started_def error_message_def



theorem session_heartbeat_follows_adapter_status_witness:
  "take 2 (emitted_of (execution_of registered (lit ''github-copilot-sdk'') prompt_42 None
      plain_session))
     = [\<lparr>otype = Status, data = lit ''Creating session with model: default...''\<rparr>,
        \<lparr>otype = Status, data = lit ''Started GitHub Copilot (SDK) for task: Add tests''\<rparr>]"
proof -
  have h: "has_executeSdk \<lparr>adapter_name = lit ''GitHub Copilot (SDK)'', has_executeSdk = True\<rparr>"
    by simp
  from session_heartbeat_follows_adapter_status
         [OF registered_sdk h, of prompt_42 None plain_session]
  obtain ex rest where
      "execution_of registered (lit ''github-copilot-sdk'') prompt_42 None plain_session = Inr ex"
      "emitted (subj ex)
         = (if client_started (sdk plain_session) then creating_session prompt_42 else connecting)
           # started \<lparr>adapter_name = lit ''GitHub Copilot (SDK)'', has_executeSdk = True\<rparr>
               prompt_42 # rest"
    by blast
  then show ?thesis
    by (simp add: emitted_of_def plain_session_def session_world_def creating_session_def
          started_def prompt_42_def lit_def)
qed

lemma exit_text_2:
  "lit ''Process exited with code: '' @ exit_code_text (Some 2)
     = lit ''Process exited with code: 2''"
  by (simp add: exit_code_text_def dec.simps [of 2] lit_def)

lemma failing_process_stream:
  "agent_run_of registered (lit ''github-copilot'') prompt_42 None failing_process
     = Streams \<lparr>events = [\<lparr>otype = Stdout, data = lit ''boom''\<rparr>,
                            \<lparr>otype = Complete, data = lit ''Process exited with code: 2''\<rparr>],
                 ending = Completes\<rparr>"
  by (simp add: agent_run_of_def delivered_def failing_process_def registered_cli registry_eval
        exit_text_2)

theorem nonzero_exit_is_recorded_completed_witness:
  "agent_run_of registered (lit ''github-copilot'') prompt_42 None failing_process
     = Streams \<lparr>events = [\<lparr>otype = Stdout, data = lit ''boom''\<rparr>,
                            \<lparr>otype = Complete, data = lit ''Process exited with code: 2''\<rparr>],
                 ending = Completes\<rparr>
   \<and> map_option status
        (returned (executeTask task_A
           \<lparr>run = agent_run_of registered (lit ''github-copilot'') prompt_42 None failing_process,
            run_duration = 5, stop_requested = False\<rparr>))
       = Some R_completed
   \<and> (\<exists>ex. execution_of registered (lit ''github-copilot'') prompt_42 None failing_process = Inr ex
          \<and> getExecutionStatus (mgr ex)
               (finalProcessId (lit ''github-copilot'') prompt_42 None (now failing_process))
              = Some E_failed)"
proof -
  have cli: "\<not> has_executeSdk \<lparr>adapter_name = lit ''GitHub Copilot'', has_executeSdk = False\<rparr>"
    by simp
  have ok: "execute_throws failing_process = None" by (simp add: failing_process_def process_world_def)
  have evs: "proc_events failing_process = [Stdout_data (lit ''boom'')] @ [Close (Some 2)]"
    by (simp add: failing_process_def process_world_def)
  have dat: "list_all is_data [Stdout_data (lit ''boom'')]" by (simp add: is_data_def)
  have code: "Some (2::nat) \<noteq> Some 0" by simp
  from nonzero_exit_is_recorded_completed
         [OF registered_cli cli ok evs dat code, of prompt_42 None task_A 5 False]
  obtain ex str res where r:
      "execution_of registered (lit ''github-copilot'') prompt_42 None failing_process = Inr ex"
      "getExecutionStatus (mgr ex)
         (finalProcessId (lit ''github-copilot'') prompt_42 None (now failing_process)) = Some E_failed"
      "agent_run_of registered (lit ''github-copilot'') prompt_42 None failing_process = Streams str"
      "executeTask task_A \<lparr>run = Streams str, run_duration = 5, stop_requested = False\<rparr>
         = Returns res"
      "status res = R_completed \<or> status res = R_blocked"
    by blast
  from r(3) have str: "str = \<lparr>events = [\<lparr>otype = Stdout, data = lit ''boom''\<rparr>,
                            \<lparr>otype = Complete, data = lit ''Process exited with code: 2''\<rparr>],
                 ending = Completes\<rparr>"
    by (simp add: failing_process_stream)
  have "find (\<lambda>e. detectBlocker (data e)) (events str) = None"
    by (simp add: str detect_boom detect_exit_text)
  from executeTask_completed [where t = task_A
         and r = "\<lparr>run = Streams str, run_duration = 5, stop_requested = False\<rparr>"
         and str = str, OF _ _ this]
  have "executeTask task_A \<lparr>run = Streams str, run_duration = 5, stop_requested = False\<rparr>
        = Returns \<lparr>taskId = task_id task_A, taskTitle = title task_A, status = R_completed,
                   blockerReason = None, duration = 5,
                   result_output = chunks_text (events str)\<rparr>"
    by (simp add: str)
  with r(1,2) show ?thesis
    unfolding failing_process_stream str [symmetric]
    by (simp add: returned_def)
qed

text \<open>
  On the session path the channel always completes, also after an \<open>error\<close> event: the
  orchestrator never records a task run by a session adapter as \<open>failed\<close>.
\<close>

lemma session_failure_is_not_recorded_failed:
  assumes "adapters m agentId = Some a" and "has_executeSdk a"
  shows "\<exists>str res. agent_run_of m agentId task processId w = Streams str
           \<and> ending str = Completes
           \<and> executeTask t \<lparr>run = Streams str, run_duration = d, stop_requested = s\<rparr>
               = Returns res
           \<and> (status res = R_completed \<or> status res = R_blocked)"
proof -
  from session_execution [OF assms, of task processId w]
  obtain ex0 ex where ex: "executeTask_sync m agentId task processId w = Inr ex0"
      "executeTask_async m agentId task processId w ex0 = ex"
      "closed (subj ex) = Some N_complete"
    by blast
  have run: "agent_run_of m agentId task processId w = Streams (delivered (subj ex0) (subj ex))"
    using ex(1,2) by (simp add: agent_run_of_def)
  have en: "ending (delivered (subj ex0) (subj ex)) = Completes"
    using ex(3) by (simp add: delivered_def)
  from executeTask_stream_completes [OF en, of t d s] run en show ?thesis by auto
qed

text \<open>
  A session execution whose round trip times out: the channel carries the \<open>error\<close> event
  and then completes.
\<close>

lemma failed_session_stream:
  "map otype (emitted_of (execution_of registered (lit ''github-copilot-sdk'') prompt_42 None
      (session_world [] (Rejects (Error_object (lit ''Timeout''))))))
     = [Status, Status, Status, Error]
   \<and> closed_of (execution_of registered (lit ''github-copilot-sdk'') prompt_42 None
        (session_world [] (Rejects (Error_object (lit ''Timeout''))))) = Some N_complete"
  by (simp add: emitted_of_def closed_of_def registered_sdk registry_eval)

section \<open>Properties of the glob translation\<close>

text \<open>
  Claim C8. The dots are escaped last, after the placeholder of \<^verbatim>\<open>**\<close> has become
  \<^verbatim>\<open>.*\<close>, so the expression built for \<^verbatim>\<open>src/**/*.ts\<close> is \<^verbatim>\<open>^src/\.*/[^/]*\.ts$\<close>:
  where the pattern has \<^verbatim>\<open>**\<close> it matches a run of dots. It matches none of
  \<^verbatim>\<open>src/a/b.ts\<close>, \<^verbatim>\<open>src/a.ts\<close> and \<^verbatim>\<open>src/a/b.tsx\<close>, and it does match
  \<^verbatim>\<open>src/../b.ts\<close>. The star and the question mark alone behave as described.
\<close>

theorem find_files_globstar_matches_only_dots:
  "regexPattern (lit ''src/**/*.ts'')
     = lit ''src/'' @ [92, 46] @ lit ''*/[^/]*'' @ [92, 46] @ lit ''ts''
   \<and> glob_matches (lit ''src/**/*.ts'') (lit ''src/a/b.ts'') = Some False
   \<and> glob_matches (lit ''src/**/*.ts'') (lit ''src/a.ts'') = Some False
   \<and> glob_matches (lit ''src/**/*.ts'') (lit ''src/a/b.tsx'') = Some False
   \<and> glob_matches (lit ''src/**/*.ts'') (lit ''src/../b.ts'') = Some True
   \<and> glob_matches (lit ''src/*.ts'') (lit ''src/b.ts'') = Some True
   \<and> glob_matches (lit ''src/*.ts'') (lit ''src/a/b.ts'') = Some False
   \<and> glob_matches (lit ''src/?.ts'') (lit ''src/b.ts'') = Some True
   \<and> glob_matches (lit ''src/?.ts'') (lit ''src/bb.ts'') = Some False"
  by code_simp

section \<open>Properties of the tools\<close>



















end
